theory Spec2Isabelle
  imports Complex_Main "HOL-Library.Word"
begin

section \<open>Configuration constants (src/index.ts, lines 16-18)\<close>

definition MAX_FILE_SIZE_MB :: nat where
  "MAX_FILE_SIZE_MB = 5"

definition CHUNK_SIZE_TOKENS :: nat where
  "CHUNK_SIZE_TOKENS = 1000"

section \<open>JavaScript values\<close>

text \<open>
  A JavaScript string is a sequence of UTF-16 code units; \<open>length\<close> and \<open>substring\<close>
  count code units. The text of an upload and every content value made from it is such a
  sequence, a list of 16-bit words. Identifiers, names, messages and the literals of the
  source, where no claim depends on the code units, are \<^typ>\<open>string\<close>s. A value that may
  be \<open>null\<close> or \<open>undefined\<close> is a \<^typ>\<open>'a option\<close>, except the progress of a callback,
  where the handler tells the two apart.
\<close>

type_synonym code_unit = "16 word"

type_synonym jstext = "code_unit list"

text \<open>A string literal of the source, as code units.\<close>

definition js_literal :: "string \<Rightarrow> jstext" where
  "js_literal s = map of_char s"

definition is_high_surrogate :: "code_unit \<Rightarrow> bool" where
  "is_high_surrogate u = (0xD800 \<le> u \<and> u \<le> 0xDBFF)"

definition is_low_surrogate :: "code_unit \<Rightarrow> bool" where
  "is_low_surrogate u = (0xDC00 \<le> u \<and> u \<le> 0xDFFF)"

text \<open>
  A TEXT value bound to a statement is written as UTF-8 and decoded again when a row is
  read. A high surrogate followed by a low one is one character and reads back as it was
  bound. A surrogate without its partner has no UTF-8 encoding: the three bytes written
  for it read back as three U+FFFD.
\<close>

fun d1_text :: "jstext \<Rightarrow> jstext" where
  "d1_text [] = []"
| "d1_text [u] =
     (if is_high_surrogate u \<or> is_low_surrogate u then [0xFFFD, 0xFFFD, 0xFFFD] else [u])"
| "d1_text (u # v # rest) =
     (if is_high_surrogate u \<and> is_low_surrogate v then u # v # d1_text rest
      else if is_high_surrogate u \<or> is_low_surrogate u
      then [0xFFFD, 0xFFFD, 0xFFFD] @ d1_text (v # rest)
      else u # d1_text (v # rest))"

text \<open>Well-formed UTF-16: every surrogate is half of a pair.\<close>

fun well_formed :: "jstext \<Rightarrow> bool" where
  "well_formed [] = True"
| "well_formed [u] = (\<not> is_high_surrogate u \<and> \<not> is_low_surrogate u)"
| "well_formed (u # v # rest) =
     (if is_high_surrogate u \<and> is_low_surrogate v then well_formed rest
      else \<not> is_high_surrogate u \<and> \<not> is_low_surrogate u \<and> well_formed (v # rest))"

text \<open>
  Position \<open>k\<close> of \<open>s\<close> does not fall between a high surrogate and the low one after it.
\<close>

definition unsplit :: "jstext \<Rightarrow> nat \<Rightarrow> bool" where
  "unsplit s k =
     (k = 0 \<or> length s \<le> k \<or> \<not> (is_high_surrogate (s ! (k - 1)) \<and> is_low_surrogate (s ! k)))"

text \<open>\<open>!s\<close> on a string that may be null: null, undefined and the empty string are falsy.\<close>

definition falsy :: "'a list option \<Rightarrow> bool" where
  "falsy v = (case v of None \<Rightarrow> True | Some s \<Rightarrow> s = [])"

text \<open>\<open>a || b\<close> with a string default \<open>b\<close>.\<close>

definition or_else :: "string option \<Rightarrow> string \<Rightarrow> string" where
  "or_else v d = (case v of None \<Rightarrow> d | Some s \<Rightarrow> if s = [] then d else s)"

text \<open>\<open>a || null\<close>, as the progress callback binds its optional strings.\<close>

definition or_null :: "string option \<Rightarrow> string option" where
  "or_null v = (if falsy v then None else v)"

text \<open>
  \<open>String.prototype.substring(start, end)\<close>: both indices are clamped to the length and
  swapped when \<open>start > end\<close>.
\<close>

definition substring :: "'a list \<Rightarrow> nat \<Rightarrow> nat \<Rightarrow> 'a list" where
  "substring s start end' =
     (let len = length s;
          a = min start len;
          b = min end' len;
          lo = min a b;
          hi = max a b
      in take (hi - lo) (drop lo s))"

text \<open>
  \<open>Math.ceil(n / d)\<close> on non-negative integers, for \<open>d > 0\<close>. The quotient of the
  source is a double; for the lengths a 5 MB upload can have it is exact enough that
  the ceiling is the integer one.
\<close>

definition ceil_div :: "nat \<Rightarrow> nat \<Rightarrow> nat" where
  "ceil_div n d = (n + d - 1) div d"

section \<open>The database (schema.sql)\<close>

text \<open>
  The five tables, each a list of rows in insertion order. Columns \<open>sources.id\<close> and
  \<open>file_chunks.id\<close> (AUTOINCREMENT surrogates that no statement of the worker reads or
  binds) are left out. \<open>CURRENT_TIMESTAMP\<close> is the parameter \<open>now\<close> of each handler.
\<close>

datatype status = Pending | Processing | Completed | Failed

record document =
  doc_id :: string
  doc_name :: string
  doc_format :: string
  doc_pages :: nat
  doc_created_at :: nat
  doc_content :: "jstext option"
  doc_vectorizer_id :: "string option"

record task =
  task_id :: string
  task_status :: status
  task_document_id :: string
  task_progress :: "real option"
  task_message :: "string option"
  task_error :: "string option"
  task_created_at :: nat
  task_updated_at :: nat

record source =
  src_document_id :: string
  src_url :: string
  src_created_at :: nat

record file_chunk =
  fc_document_id :: string
  fc_chunk_index :: nat
  fc_content :: jstext
  fc_created_at :: nat

record vectorizer =
  vec_id :: string
  vec_model_name :: string
  vec_engine_type :: string
  vec_chunk_size :: nat
  vec_ocr_engine :: "string option"
  vec_created_at :: nat
  vec_updated_at :: nat
  vec_parameters :: "string option"

record db =
  documents :: "document list"
  tasks :: "task list"
  sources :: "source list"
  file_chunks :: "file_chunk list"
  vectorizers :: "vectorizer list"

definition empty_db :: db where
  "empty_db = \<lparr>documents = [], tasks = [], sources = [], file_chunks = [], vectorizers = []\<rparr>"

subsection \<open>Statements\<close>

text \<open>
  An INSERT that violates a PRIMARY KEY or UNIQUE constraint throws; the model returns
  \<open>None\<close> and the handler's \<open>catch\<close> answers 500, keeping what was written before.
  Every statement that references another table follows, in the same handler, the
  successful insert or lookup of the row it references, so the foreign keys of the
  schema can never reject one of them and are not modelled.
\<close>

definition insert_document :: "db \<Rightarrow> document \<Rightarrow> db option" where
  "insert_document d row =
     (if doc_id row \<in> set (map doc_id (documents d)) then None
      else Some (d\<lparr>documents := documents d @ [row]\<rparr>))"

definition insert_task :: "db \<Rightarrow> task \<Rightarrow> db option" where
  "insert_task d row =
     (if task_id row \<in> set (map task_id (tasks d)) then None
      else Some (d\<lparr>tasks := tasks d @ [row]\<rparr>))"

definition insert_source :: "db \<Rightarrow> source \<Rightarrow> db" where
  "insert_source d row = d\<lparr>sources := sources d @ [row]\<rparr>"

text \<open>\<open>UNIQUE (document_id, chunk_index)\<close>.\<close>

definition insert_file_chunk :: "db \<Rightarrow> file_chunk \<Rightarrow> db option" where
  "insert_file_chunk d row =
     (if (fc_document_id row, fc_chunk_index row)
           \<in> set (map (\<lambda>c. (fc_document_id c, fc_chunk_index c)) (file_chunks d))
      then None
      else Some (d\<lparr>file_chunks := file_chunks d @ [row]\<rparr>))"

text \<open>The only constraint of \<open>vectorizers\<close> is its primary key: \<open>model_name\<close> is not unique.\<close>

definition insert_vectorizer :: "db \<Rightarrow> vectorizer \<Rightarrow> db option" where
  "insert_vectorizer d row =
     (if vec_id row \<in> set (map vec_id (vectorizers d)) then None
      else Some (d\<lparr>vectorizers := vectorizers d @ [row]\<rparr>))"

text \<open>\<open>SELECT id FROM vectorizers WHERE model_name = ?\<close> with \<open>.first()\<close>.\<close>

definition select_vectorizer_id :: "db \<Rightarrow> string \<Rightarrow> string option" where
  "select_vectorizer_id d modelName =
     map_option vec_id (find (\<lambda>v. vec_model_name v = modelName) (vectorizers d))"

text \<open>\<open>UPDATE documents SET vectorizer_id = ? WHERE id = ?\<close>.\<close>

definition update_document_vectorizer :: "db \<Rightarrow> string \<Rightarrow> string \<Rightarrow> db" where
  "update_document_vectorizer d vectorizerId documentId =
     d\<lparr>documents :=
          map (\<lambda>r. if doc_id r = documentId then r\<lparr>doc_vectorizer_id := Some vectorizerId\<rparr> else r)
              (documents d)\<rparr>"

text \<open>
  The UPDATE of the progress callback: \<open>progress\<close> is assigned, \<open>message\<close>, \<open>error\<close> and
  \<open>status\<close> go through \<open>COALESCE(?, column)\<close>. The result carries \<open>meta.changes\<close>, the
  number of rows the WHERE clause matched.
\<close>

definition coalesce :: "'a option \<Rightarrow> 'a option \<Rightarrow> 'a option" where
  "coalesce new old = (case new of None \<Rightarrow> old | Some v \<Rightarrow> Some v)"

definition update_task_row ::
  "real option \<Rightarrow> string option \<Rightarrow> string option \<Rightarrow> status option \<Rightarrow> nat \<Rightarrow> task \<Rightarrow> task" where
  "update_task_row progress message error status' now t =
     t\<lparr>task_progress := progress,
       task_message := coalesce message (task_message t),
       task_error := coalesce error (task_error t),
       task_status := (case status' of None \<Rightarrow> task_status t | Some s \<Rightarrow> s),
       task_updated_at := now\<rparr>"

definition update_task_progress ::
  "db \<Rightarrow> real option \<Rightarrow> string option \<Rightarrow> string option \<Rightarrow> status option \<Rightarrow> nat
     \<Rightarrow> string \<Rightarrow> nat \<times> db" where
  "update_task_progress d progress message error status' now taskId =
     (length (filter (\<lambda>t. task_id t = taskId) (tasks d)),
      d\<lparr>tasks :=
           map (\<lambda>t. if task_id t = taskId
                    then update_task_row progress message error status' now t else t)
               (tasks d)\<rparr>)"

text \<open>
  The join of the result endpoint,
  \<open>FROM tasks t JOIN documents d ON t.document_id = d.id WHERE t.id = ?\<close> with
  \<open>.first()\<close>; both ids are primary keys, so at most one pair matches.
\<close>

definition select_task_document :: "db \<Rightarrow> string \<Rightarrow> (task \<times> document) option" where
  "select_task_document d taskId =
     (case find (\<lambda>t. task_id t = taskId) (tasks d) of
        None \<Rightarrow> None
      | Some t \<Rightarrow>
          (case find (\<lambda>r. doc_id r = task_document_id t) (documents d) of
             None \<Rightarrow> None
           | Some r \<Rightarrow> Some (t, r)))"

text \<open>
  \<open>SELECT content FROM file_chunks WHERE document_id = ? ORDER BY chunk_index ASC\<close>. The
  rows of the model hold the values as they were bound; what a SELECT returns for a
  content column is the text read back.
\<close>

definition select_chunks :: "db \<Rightarrow> string \<Rightarrow> jstext list" where
  "select_chunks d documentId =
     map (\<lambda>c. d1_text (fc_content c))
       (sort_key fc_chunk_index (filter (\<lambda>c. fc_document_id c = documentId) (file_chunks d)))"

section \<open>Requests and responses (src/models.ts)\<close>

datatype document_source = SourceUrl string | SourceObject string "(string \<times> string) list"

text \<open>\<open>typeof source === 'string' ? source : source.url\<close>.\<close>

fun source_url :: "document_source \<Rightarrow> string" where
  "source_url (SourceUrl u) = u"
| "source_url (SourceObject u headers) = u"

text \<open>Of \<open>ConvertDocumentsOptions\<close>, the two fields the handlers read.\<close>

record convert_options =
  opt_model :: "string option"
  opt_ocr_engine :: "string option"

record convert_request =
  req_sources :: "document_source list option"
  req_options :: "convert_options option"

text \<open>An uploaded \<open>File\<close>: its name, its size in bytes and the text \<open>file.text()\<close> yields.\<close>

record file_upload =
  file_name :: string
  file_size :: nat
  file_text :: jstext

text \<open>The multipart form of the file endpoint: the fields that reach the database or the response.\<close>

record file_form =
  form_files :: "file_upload list"
  form_format :: "string option"
  form_ocr_engine :: "string option"
  form_model :: "string option"

text \<open>
  The \<open>progress\<close> of a callback, declared \<open>progress?: number\<close> and read from the JSON body
  unchecked: the handler rejects \<open>undefined\<close> only, so a \<open>null\<close> reaches the UPDATE and is
  bound as NULL.
\<close>

datatype progress_field = Omitted | Null | Number real

fun bound_progress :: "progress_field \<Rightarrow> real option" where
  "bound_progress (Number p) = Some p"
| "bound_progress Null = None"
| "bound_progress Omitted = None"

record progress_request =
  cb_task_id :: "string option"
  cb_progress :: progress_field
  cb_message :: "string option"
  cb_error :: "string option"
  cb_status :: "status option"

record env =
  DEFAULT_MODEL :: "string option"

record task_status_response =
  rsp_task_id :: string
  rsp_status :: status
  rsp_message :: "string option"
  rsp_progress :: "real option"
  rsp_error :: "string option"

text \<open>\<open>res_content = Some s\<close> is the JSON \<open>content: {text: s}\<close>; \<open>None\<close> is an absent field.\<close>

record convert_result =
  res_document_id :: string
  res_pages :: nat
  res_format :: string
  res_content :: "jstext option"

datatype response =
  ErrorResponse nat string
| TaskStatus task_status_response
| ConvertDocument task_status_response convert_result
| ProgressOk string "real option"

section \<open>Handlers\<close>

subsection \<open>POST /v1alpha/convert/source\<close>

text \<open>The loop \<open>for (const source of data.sources)\<close> inserting one row per source.\<close>

fun insert_sources :: "string \<Rightarrow> nat \<Rightarrow> document_source list \<Rightarrow> db \<Rightarrow> db" where
  "insert_sources documentId now [] d = d"
| "insert_sources documentId now (s # ss) d =
     insert_sources documentId now ss
       (insert_source d \<lparr>src_document_id = documentId, src_url = source_url s, src_created_at = now\<rparr>)"

text \<open>\<open>JSON.stringify({source: 'url'})\<close>.\<close>

definition url_placeholder :: jstext where
  \<open>url_placeholder = js_literal ''{"source":"url"}''\<close>

text \<open>
  \<open>taskId\<close> and \<open>documentId\<close> are the two values \<open>crypto.randomUUID()\<close> returns in the
  handler.
\<close>

definition convert_source ::
  "string \<Rightarrow> string \<Rightarrow> nat \<Rightarrow> convert_request \<Rightarrow> db \<Rightarrow> response \<times> db" where
  "convert_source taskId documentId now data d =
     (case req_sources data of
        None \<Rightarrow> (ErrorResponse 400 ''Invalid sources provided'', d)
      | Some srcs \<Rightarrow>
          if length srcs = 0 then (ErrorResponse 400 ''Invalid sources provided'', d)
          else
            (case insert_document d
                    \<lparr>doc_id = documentId, doc_name = ''url-document'', doc_format = ''json'',
                     doc_pages = length srcs, doc_created_at = now,
                     doc_content = Some url_placeholder, doc_vectorizer_id = None\<rparr> of
               None \<Rightarrow> (ErrorResponse 500 ''Failed to process request'', d)
             | Some d1 \<Rightarrow>
                 (case insert_task d1
                         \<lparr>task_id = taskId, task_status = Completed, task_document_id = documentId,
                          task_progress = Some 0, task_message = Some ''Document conversion started'',
                          task_error = None, task_created_at = now, task_updated_at = now\<rparr> of
                    None \<Rightarrow> (ErrorResponse 500 ''Failed to process request'', d1)
                  | Some d2 \<Rightarrow>
                      (ConvertDocument
                         \<lparr>rsp_task_id = taskId, rsp_status = Completed,
                          rsp_message = Some ''Document conversion started'',
                          rsp_progress = None, rsp_error = None\<rparr>
                         \<lparr>res_document_id = documentId, res_pages = length srcs,
                          res_format = ''json'', res_content = None\<rparr>,
                       insert_sources documentId now srcs d2))))"

subsection \<open>POST /v1alpha/convert/file\<close>

text \<open>
  The chunk loop \<open>for (let i = 0; i < chunks; i++)\<close>. A failing INSERT leaves the
  loop by the exception; the flag is \<open>False\<close> then and the rows written so far stay.
\<close>

function chunk_loop :: "string \<Rightarrow> jstext \<Rightarrow> nat \<Rightarrow> nat \<Rightarrow> nat \<Rightarrow> db \<Rightarrow> bool \<times> db" where
  "chunk_loop documentId contentText chunks now i d =
     (if i < chunks then
        (let start = i * CHUNK_SIZE_TOKENS;
             end' = min ((i + 1) * CHUNK_SIZE_TOKENS) (length contentText);
             chunk = substring contentText start end'
         in case insert_file_chunk d
                   \<lparr>fc_document_id = documentId, fc_chunk_index = i, fc_content = chunk,
                    fc_created_at = now\<rparr> of
              None \<Rightarrow> (False, d)
            | Some d' \<Rightarrow> chunk_loop documentId contentText chunks now (i + 1) d')
      else (True, d))"
  by pat_completeness auto
termination
  by (relation "measure (\<lambda>(documentId, contentText, chunks, now, i, d). chunks - i)") auto

declare chunk_loop.simps [simp del]

text \<open>\<open>JSON.stringify(defaultParameters)\<close>.\<close>

definition default_parameters :: string where
  \<open>default_parameters =
     ''{"chunk_overlap":200,"max_tokens":8192,"token_encoding":"cl100k_base","enable_summarization":true,"enable_metadata_extraction":true}''\<close>

text \<open>
  The lookup-or-insert block that the file handler (lines 1263-1298) and the async
  handler (lines 1354-1389) both contain, word for word except for where the OCR engine
  comes from. \<open>newId\<close> is the value \<open>crypto.randomUUID()\<close> returns when the row has to be
  created. \<open>None\<close> is the INSERT throwing.
\<close>

definition get_or_create_vectorizer ::
  "db \<Rightarrow> string \<Rightarrow> string \<Rightarrow> string \<Rightarrow> nat \<Rightarrow> (string \<times> db) option" where
  "get_or_create_vectorizer d modelName ocrEngine newId now =
     (case select_vectorizer_id d modelName of
        Some existing \<Rightarrow> Some (existing, d)
      | None \<Rightarrow>
          (case insert_vectorizer d
                  \<lparr>vec_id = newId, vec_model_name = modelName, vec_engine_type = ''openai'',
                   vec_chunk_size = CHUNK_SIZE_TOKENS, vec_ocr_engine = Some ocrEngine,
                   vec_created_at = now, vec_updated_at = now,
                   vec_parameters = Some default_parameters\<rparr> of
             None \<Rightarrow> None
           | Some d' \<Rightarrow> Some (newId, d')))"

text \<open>\<open>requested || env.DEFAULT_MODEL || 'gpt-4o-mini'\<close>.\<close>

definition model_name_of :: "env \<Rightarrow> string option \<Rightarrow> string" where
  "model_name_of e requested = or_else requested (or_else (DEFAULT_MODEL e) ''gpt-4o-mini'')"

text \<open>
  \<open>file.size / (1024 * 1024) > MAX_FILE_SIZE_MB\<close>: dividing by a power of two is exact,
  so the test is the comparison of integers below.
\<close>

definition convert_file ::
  "env \<Rightarrow> string \<Rightarrow> string \<Rightarrow> string \<Rightarrow> nat \<Rightarrow> file_form \<Rightarrow> db \<Rightarrow> response \<times> db" where
  "convert_file e taskId documentId vectorizerId now form d =
     (let files = form_files form;
          format = or_else (form_format form) ''json'';
          ocr_engine = or_else (form_ocr_engine form) ''easyocr'';
          modelName = model_name_of e (form_model form)
      in case files of
           [] \<Rightarrow> (ErrorResponse 400 ''No files provided'', d)
         | file # others \<Rightarrow>
             if file_size file > MAX_FILE_SIZE_MB * (1024 * 1024)
             then (ErrorResponse 400 ''File size exceeds the 5 MB limit'', d)
             else
               (let contentText = file_text file in
                case insert_document d
                       \<lparr>doc_id = documentId, doc_name = file_name file, doc_format = format,
                        doc_pages = length files, doc_created_at = now,
                        doc_content =
                          (if length contentText \<le> CHUNK_SIZE_TOKENS then Some contentText else None),
                        doc_vectorizer_id = None\<rparr> of
                  None \<Rightarrow> (ErrorResponse 500 ''Failed to process files'', d)
                | Some d1 \<Rightarrow>
                    (case (if length contentText > CHUNK_SIZE_TOKENS
                           then chunk_loop documentId contentText
                                  (ceil_div (length contentText) CHUNK_SIZE_TOKENS) now 0 d1
                           else (True, d1)) of
                       (False, d2) \<Rightarrow> (ErrorResponse 500 ''Failed to process files'', d2)
                     | (True, d2) \<Rightarrow>
                         (case insert_task d2
                                 \<lparr>task_id = taskId, task_status = Completed,
                                  task_document_id = documentId, task_progress = Some 0,
                                  task_message = Some ''Files processed successfully'',
                                  task_error = None, task_created_at = now,
                                  task_updated_at = now\<rparr> of
                            None \<Rightarrow> (ErrorResponse 500 ''Failed to process files'', d2)
                          | Some d3 \<Rightarrow>
                              (case get_or_create_vectorizer d3 modelName ocr_engine vectorizerId now of
                                 None \<Rightarrow> (ErrorResponse 500 ''Failed to process files'', d3)
                               | Some (vid, d4) \<Rightarrow>
                                   (ConvertDocument
                                      \<lparr>rsp_task_id = taskId, rsp_status = Completed,
                                       rsp_message = Some ''Files processed successfully'',
                                       rsp_progress = None, rsp_error = None\<rparr>
                                      \<lparr>res_document_id = documentId, res_pages = length files,
                                       res_format = format, res_content = None\<rparr>,
                                    update_document_vectorizer d4 vid documentId))))))"

subsection \<open>POST /v1alpha/convert/source/async\<close>

definition convert_source_async ::
  "env \<Rightarrow> string \<Rightarrow> string \<Rightarrow> string \<Rightarrow> nat \<Rightarrow> convert_request \<Rightarrow> db \<Rightarrow> response \<times> db" where
  "convert_source_async e taskId documentId vectorizerId now data d =
     (case req_sources data of
        None \<Rightarrow> (ErrorResponse 400 ''Invalid sources provided'', d)
      | Some srcs \<Rightarrow>
          if length srcs = 0 then (ErrorResponse 400 ''Invalid sources provided'', d)
          else
            (let modelName =
                   model_name_of e (case req_options data of None \<Rightarrow> None | Some opts \<Rightarrow> opt_model opts);
                 ocr_engine =
                   or_else (case req_options data of None \<Rightarrow> None | Some opts \<Rightarrow> opt_ocr_engine opts)
                     ''easyocr''
             in case get_or_create_vectorizer d modelName ocr_engine vectorizerId now of
                  None \<Rightarrow> (ErrorResponse 500 ''Failed to process request'', d)
                | Some (vid, d1) \<Rightarrow>
                    (case insert_document d1
                            \<lparr>doc_id = documentId, doc_name = ''async-document'', doc_format = ''json'',
                             doc_pages = length srcs, doc_created_at = now,
                             doc_content = None, doc_vectorizer_id = Some vid\<rparr> of
                       None \<Rightarrow> (ErrorResponse 500 ''Failed to process request'', d1)
                     | Some d2 \<Rightarrow>
                         (case insert_task d2
                                 \<lparr>task_id = taskId, task_status = Pending,
                                  task_document_id = documentId, task_progress = Some 0,
                                  task_message = Some ''Document conversion queued'',
                                  task_error = None, task_created_at = now,
                                  task_updated_at = now\<rparr> of
                            None \<Rightarrow> (ErrorResponse 500 ''Failed to process request'', d2)
                          | Some d3 \<Rightarrow>
                              (TaskStatus
                                 \<lparr>rsp_task_id = taskId, rsp_status = Pending,
                                  rsp_message = Some ''Document conversion queued'',
                                  rsp_progress = None, rsp_error = None\<rparr>,
                               insert_sources documentId now srcs d3)))))"

subsection \<open>GET /v1alpha/result/:taskId\<close>

definition get_result :: "string \<Rightarrow> db \<Rightarrow> response" where
  "get_result taskId d =
     (if taskId = [] then ErrorResponse 400 ''Invalid task ID''
      else
        (case select_task_document d taskId of
           None \<Rightarrow> ErrorResponse 404 ''Task or document not found''
         | Some (t, r) \<Rightarrow>
             (let content0 = map_option d1_text (doc_content r);
                  content =
                    (if falsy content0 \<and> doc_id r \<noteq> [] then
                       (let chunks = select_chunks d (doc_id r)
                        in if length chunks > 0 then Some (concat chunks) else content0)
                     else content0)
              in ConvertDocument
                   \<lparr>rsp_task_id = task_id t, rsp_status = task_status t,
                    rsp_message = task_message t, rsp_progress = task_progress t,
                    rsp_error = task_error t\<rparr>
                   \<lparr>res_document_id = doc_id r, res_pages = doc_pages r,
                    res_format = doc_format r,
                    res_content = (if falsy content then None else content)\<rparr>)))"

subsection \<open>POST /v1alpha/callback/task/progress\<close>

definition progress_callback :: "nat \<Rightarrow> progress_request \<Rightarrow> db \<Rightarrow> response \<times> db" where
  "progress_callback now data d =
     (if falsy (cb_task_id data) \<or> cb_progress data = Omitted
      then (ErrorResponse 400 ''Invalid progress data'', d)
      else
        (let taskId = the (cb_task_id data);
             progress = bound_progress (cb_progress data);
             (changes, d') =
                update_task_progress d progress (or_null (cb_message data))
                  (or_null (cb_error data)) (cb_status data) now taskId
         in if changes = 0 then (ErrorResponse 404 ''Task not found'', d')
            else (ProgressOk taskId progress, d')))"

subsection \<open>ensureDefaultVectorizer\<close>

text \<open>
  The bootstrap: the same lookup-or-insert for the default model, its result dropped and
  an exception only logged. The flag tells whether it ran without an exception.
\<close>

definition ensureDefaultVectorizer :: "env \<Rightarrow> string \<Rightarrow> nat \<Rightarrow> db \<Rightarrow> bool \<times> db" where
  "ensureDefaultVectorizer e vectorizerId now d =
     (let modelName = or_else (DEFAULT_MODEL e) ''gpt-4o-mini'' in
      case select_vectorizer_id d modelName of
        Some existing \<Rightarrow> (True, d)
      | None \<Rightarrow>
          (case insert_vectorizer d
                  \<lparr>vec_id = vectorizerId, vec_model_name = modelName, vec_engine_type = ''openai'',
                   vec_chunk_size = CHUNK_SIZE_TOKENS, vec_ocr_engine = Some ''easyocr'',
                   vec_created_at = now, vec_updated_at = now,
                   vec_parameters = Some default_parameters\<rparr> of
             None \<Rightarrow> (False, d)
           | Some d' \<Rightarrow> (True, d')))"

section \<open>Fresh identifiers\<close>

text \<open>
  \<open>crypto.randomUUID()\<close> returns a 36-character identifier. The handlers rely on it
  not being in the database yet: a repeated identifier makes the INSERT throw.
\<close>

definition fresh_document_id :: "db \<Rightarrow> string \<Rightarrow> bool" where
  "fresh_document_id d documentId =
     (documentId \<noteq> [] \<and> documentId \<notin> set (map doc_id (documents d))
        \<and> documentId \<notin> set (map fc_document_id (file_chunks d)))"

definition fresh_task_id :: "db \<Rightarrow> string \<Rightarrow> bool" where
  "fresh_task_id d taskId = (taskId \<noteq> [] \<and> taskId \<notin> set (map task_id (tasks d)))"

definition fresh_vectorizer_id :: "db \<Rightarrow> string \<Rightarrow> bool" where
  "fresh_vectorizer_id d vectorizerId = (vectorizerId \<notin> set (map vec_id (vectorizers d)))"

section \<open>Sequences of requests\<close>

text \<open>
  The requests that write to the database, each with the identifiers and the timestamp
  its handler draws, and the database after a sequence of them, one after another.
\<close>

datatype request =
  ConvertSource string string nat convert_request
| ConvertFile string string string nat file_form
| ConvertSourceAsync string string string nat convert_request
| ProgressCallback nat progress_request
| EnsureDefaultVectorizer string nat

fun handle :: "env \<Rightarrow> request \<Rightarrow> db \<Rightarrow> db" where
  "handle e (ConvertSource taskId documentId now data) d =
     snd (convert_source taskId documentId now data d)"
| "handle e (ConvertFile taskId documentId vectorizerId now form) d =
     snd (convert_file e taskId documentId vectorizerId now form d)"
| "handle e (ConvertSourceAsync taskId documentId vectorizerId now data) d =
     snd (convert_source_async e taskId documentId vectorizerId now data d)"
| "handle e (ProgressCallback now data) d = snd (progress_callback now data d)"
| "handle e (EnsureDefaultVectorizer vectorizerId now) d =
     snd (ensureDefaultVectorizer e vectorizerId now d)"

fun run :: "env \<Rightarrow> request list \<Rightarrow> db \<Rightarrow> db" where
  "run e [] d = d"
| "run e (r # rs) d = run e rs (handle e r d)"

text \<open>The model name a request's lookup-or-insert of a vectorizer is made with.\<close>

fun vectorizer_model :: "env \<Rightarrow> request \<Rightarrow> string option" where
  "vectorizer_model e (ConvertFile taskId documentId vectorizerId now form) =
     Some (model_name_of e (form_model form))"
| "vectorizer_model e (ConvertSourceAsync taskId documentId vectorizerId now data) =
     Some (model_name_of e (case req_options data of None \<Rightarrow> None | Some opts \<Rightarrow> opt_model opts))"
| "vectorizer_model e (EnsureDefaultVectorizer vectorizerId now) =
     Some (or_else (DEFAULT_MODEL e) ''gpt-4o-mini'')"
| "vectorizer_model e _ = None"

text \<open>Whether such a request runs to its end: the success response, or no logged exception.\<close>

fun completes :: "env \<Rightarrow> request \<Rightarrow> db \<Rightarrow> bool" where
  "completes e (ConvertFile taskId documentId vectorizerId now form) d =
     (case fst (convert_file e taskId documentId vectorizerId now form d) of
        ConvertDocument ts res \<Rightarrow> True | _ \<Rightarrow> False)"
| "completes e (ConvertSourceAsync taskId documentId vectorizerId now data) d =
     (case fst (convert_source_async e taskId documentId vectorizerId now data d) of
        TaskStatus ts \<Rightarrow> True | _ \<Rightarrow> False)"
| "completes e (EnsureDefaultVectorizer vectorizerId now) d =
     fst (ensureDefaultVectorizer e vectorizerId now d)"
| "completes e _ d = False"

text \<open>
  What makes such a request run to its end: input that its handler accepts, and
  identifiers from \<open>crypto.randomUUID()\<close> that are not in the database.
\<close>

fun well_posed :: "env \<Rightarrow> request \<Rightarrow> db \<Rightarrow> bool" where
  "well_posed e (ConvertFile taskId documentId vectorizerId now form) d =
     ((case form_files form of
         [] \<Rightarrow> False
       | f # others \<Rightarrow> file_size f \<le> MAX_FILE_SIZE_MB * (1024 * 1024))
      \<and> fresh_document_id d documentId \<and> fresh_task_id d taskId
      \<and> fresh_vectorizer_id d vectorizerId)"
| "well_posed e (ConvertSourceAsync taskId documentId vectorizerId now data) d =
     ((case req_sources data of None \<Rightarrow> False | Some srcs \<Rightarrow> srcs \<noteq> [])
      \<and> fresh_document_id d documentId \<and> fresh_task_id d taskId
      \<and> fresh_vectorizer_id d vectorizerId)"
| "well_posed e (EnsureDefaultVectorizer vectorizerId now) d =
     fresh_vectorizer_id d vectorizerId"
| "well_posed e _ d = False"

text \<open>The document a request links to the vectorizer, when it creates one.\<close>

fun linked_document :: "request \<Rightarrow> string option" where
  "linked_document (ConvertFile taskId documentId vectorizerId now form) = Some documentId"
| "linked_document (ConvertSourceAsync taskId documentId vectorizerId now data) = Some documentId"
| "linked_document _ = None"

text \<open>The progress value a request carries, when it is a progress callback with one.\<close>

fun carried_progress :: "request \<Rightarrow> progress_field" where
  "carried_progress (ProgressCallback now data) = cb_progress data"
| "carried_progress _ = Omitted"

definition vectorizers_named :: "db \<Rightarrow> string \<Rightarrow> vectorizer list" where
  "vectorizers_named d modelName = filter (\<lambda>v. vec_model_name v = modelName) (vectorizers d)"

section \<open>Interleaved lookup-or-insert\<close>

text \<open>
  The lookup-or-insert block awaits two statements, the SELECT and the INSERT; between
  them the statements of other requests may run. A caller is at its SELECT, at its INSERT
  (its SELECT found no row), has its identifier, or has thrown. Each statement is atomic.
\<close>

datatype caller_state = AtSelect | AtInsert | Returned string | Threw

record caller =
  c_new_id :: string
  c_ocr_engine :: string
  c_now :: nat
  c_state :: caller_state

definition caller_step :: "string \<Rightarrow> caller \<Rightarrow> db \<Rightarrow> caller \<times> db" where
  "caller_step modelName c d =
     (case c_state c of
        AtSelect \<Rightarrow>
          (case select_vectorizer_id d modelName of
             Some existing \<Rightarrow> (c\<lparr>c_state := Returned existing\<rparr>, d)
           | None \<Rightarrow> (c\<lparr>c_state := AtInsert\<rparr>, d))
      | AtInsert \<Rightarrow>
          (case insert_vectorizer d
                  \<lparr>vec_id = c_new_id c, vec_model_name = modelName, vec_engine_type = ''openai'',
                   vec_chunk_size = CHUNK_SIZE_TOKENS, vec_ocr_engine = Some (c_ocr_engine c),
                   vec_created_at = c_now c, vec_updated_at = c_now c,
                   vec_parameters = Some default_parameters\<rparr> of
             None \<Rightarrow> (c\<lparr>c_state := Threw\<rparr>, d)
           | Some d' \<Rightarrow> (c\<lparr>c_state := Returned (c_new_id c)\<rparr>, d'))
      | Returned v \<Rightarrow> (c, d)
      | Threw \<Rightarrow> (c, d))"

text \<open>A schedule names, statement by statement, the caller that runs next.\<close>

fun run_schedule :: "string \<Rightarrow> nat list \<Rightarrow> caller list \<times> db \<Rightarrow> caller list \<times> db" where
  "run_schedule modelName [] cfg = cfg"
| "run_schedule modelName (i # sched) (cs, d) =
     (if i < length cs
      then (case caller_step modelName (cs ! i) d of
              (c', d') \<Rightarrow> run_schedule modelName sched (cs[i := c'], d'))
      else run_schedule modelName sched (cs, d))"

text \<open>The schedule in which the callers of \<open>order\<close> run one after another, none overlapping.\<close>

definition serial :: "nat list \<Rightarrow> nat list" where
  "serial order = concat (map (\<lambda>i. [i, i]) order)"

definition new_caller :: "string \<Rightarrow> string \<Rightarrow> nat \<Rightarrow> caller" where
  "new_caller newId ocrEngine now =
     \<lparr>c_new_id = newId, c_ocr_engine = ocrEngine, c_now = now, c_state = AtSelect\<rparr>"

definition returned :: "caller \<Rightarrow> bool" where
  "returned c = (case c_state c of Returned v \<Rightarrow> True | _ \<Rightarrow> False)"

text \<open>The statements a caller has still to run.\<close>

definition pending :: "caller \<Rightarrow> nat" where
  "pending c = (case c_state c of AtSelect \<Rightarrow> 2 | AtInsert \<Rightarrow> 1 | Returned v \<Rightarrow> 0 | Threw \<Rightarrow> 0)"

text \<open>A caller between its start and its end counts once.\<close>

definition in_flight :: "caller \<Rightarrow> nat" where
  "in_flight c = (if 0 < pending c then 1 else 0)"

text \<open>
  The callers hold pairwise different new identifiers, none has thrown, and the identifier
  of a caller that may still insert is not in the table: what \<open>crypto.randomUUID()\<close> gives.
\<close>

definition ready :: "db \<Rightarrow> caller list \<Rightarrow> bool" where
  "ready d cs =
     (distinct (map c_new_id cs)
      \<and> (\<forall>c \<in> set cs. c_state c \<noteq> Threw
            \<and> (0 < pending c \<longrightarrow> fresh_vectorizer_id d (c_new_id c))))"

section \<open>Predicates on databases\<close>

text \<open>Every task has a progress between 0 and 100.\<close>

definition in_range :: "db \<Rightarrow> bool" where
  "in_range d =
     (\<forall>t \<in> set (tasks d). \<exists>p. task_progress t = Some p \<and> 0 \<le> p \<and> p \<le> 100)"

text \<open>
  At most one vectorizer per model name and one document per identifier: what the
  handlers maintain when their requests run one after another.
\<close>

definition consistent :: "db \<Rightarrow> bool" where
  "consistent d =
     (distinct (map vec_model_name (vectorizers d)) \<and> distinct (map doc_id (documents d)))"

section \<open>Auxiliary facts about lists and statements\<close>

lemma find_append: "find P (xs @ ys) = (case find P xs of None \<Rightarrow> find P ys | Some x \<Rightarrow> Some x)"
  by (induction xs) auto

lemma find_absent: "\<forall>x \<in> set xs. \<not> P x \<Longrightarrow> find P xs = None"
  by (simp add: find_None_iff)

lemma find_fresh_snoc: "\<forall>x \<in> set xs. \<not> P x \<Longrightarrow> P y \<Longrightarrow> find P (xs @ [y]) = Some y"
  by (simp add: find_append find_absent)

lemma falsy_simps [simp]: "falsy None" "falsy (Some s) = (s = [])"
  by (simp_all add: falsy_def)

lemma d1_text_well_formed: "well_formed s \<Longrightarrow> d1_text s = s"
  by (induction s rule: d1_text.induct) (auto split: if_splits)

lemma d1_text_Nil_iff [simp]: "d1_text s = [] \<longleftrightarrow> s = []"
  by (cases s rule: d1_text.cases) auto

lemma length_js_literal [simp]: "length (js_literal s) = length s"
  by (simp add: js_literal_def)

lemma well_formed_Cons_plain:
  assumes "\<not> is_high_surrogate u" and "\<not> is_low_surrogate u"
  shows "well_formed (u # s) = well_formed s"
  using assms by (cases s) simp_all

lemma well_formed_replicate:
  assumes "\<not> is_high_surrogate u" and "\<not> is_low_surrogate u"
  shows "well_formed (replicate n u)"
  using assms by (induction n) (simp_all add: well_formed_Cons_plain)

lemma well_formed_cut:
  assumes "well_formed s" and "unsplit s k"
  shows "well_formed (take k s) \<and> well_formed (drop k s)"
  using assms
proof (induction s arbitrary: k rule: well_formed.induct)
  case 1
  then show ?case by simp
next
  case (2 u)
  then show ?case by (cases k) simp_all
next
  case (3 u v rest)
  show ?case
  proof (cases "is_high_surrogate u \<and> is_low_surrogate v")
    case True
    then have wr: "well_formed rest" using "3.prems"(1) by simp
    show ?thesis
    proof (cases k)
      case 0
      then show ?thesis using "3.prems"(1) by simp
    next
      case (Suc k1)
      show ?thesis
      proof (cases k1)
        case 0
        then show ?thesis using "3.prems"(2) True Suc by (simp add: unsplit_def)
      next
        case (Suc k2)
        have k: "k = Suc (Suc k2)" using \<open>k = Suc k1\<close> Suc by simp
        have "unsplit rest k2"
          using "3.prems"(2) unfolding k unsplit_def by (cases k2) auto
        from "3.IH"(1) [OF True wr this] show ?thesis using True by (simp add: k)
      qed
    qed
  next
    case False
    then have "\<not> is_high_surrogate u \<and> \<not> is_low_surrogate u \<and> well_formed (v # rest)"
      using "3.prems"(1) by (simp split: if_splits)
    then have pu: "\<not> is_high_surrogate u" "\<not> is_low_surrogate u" and wv: "well_formed (v # rest)"
      by simp_all
    show ?thesis
    proof (cases k)
      case 0
      then show ?thesis using "3.prems"(1) by simp
    next
      case (Suc k1)
      have "unsplit (v # rest) k1"
        using "3.prems"(2) unfolding Suc unsplit_def by (cases k1) auto
      from "3.IH"(2) [OF False wv this]
      have "well_formed (take k1 (v # rest))" "well_formed (drop k1 (v # rest))" by simp_all
      then show ?thesis using pu by (simp add: Suc well_formed_Cons_plain)
    qed
  qed
qed

lemma well_formed_slice:
  assumes wf: "well_formed s" and a: "unsplit s (i * k)" and b: "unsplit s ((i + 1) * k)"
  shows "well_formed (take k (drop (i * k) s))"
proof -
  have wd: "well_formed (drop (i * k) s)" using well_formed_cut [OF wf a] by simp
  have "unsplit (drop (i * k) s) k"
  proof (cases "k = 0 \<or> length (drop (i * k) s) \<le> k")
    case True
    then show ?thesis by (auto simp: unsplit_def)
  next
    case False
    then have kpos: "0 < k" and len: "i * k + k < length s" by auto
    have 1: "drop (i * k) s ! (k - 1) = s ! ((i + 1) * k - 1)"
      using kpos len by (simp add: algebra_simps)
    have 2: "drop (i * k) s ! k = s ! ((i + 1) * k)"
      using len by (simp add: algebra_simps)
    have "\<not> (is_high_surrogate (s ! ((i + 1) * k - 1)) \<and> is_low_surrogate (s ! ((i + 1) * k)))"
      using b kpos len by (simp add: unsplit_def)
    then show ?thesis unfolding unsplit_def 1 2 by simp
  qed
  from well_formed_cut [OF wd this] show ?thesis by simp
qed

lemma url_placeholder_read [simp]:
  "d1_text url_placeholder = url_placeholder" "url_placeholder \<noteq> []"
  by (simp_all add: url_placeholder_def js_literal_def is_high_surrogate_def
        is_low_surrogate_def)

lemma insert_sources_documents [simp]: "documents (insert_sources documentId now ss d) = documents d"
  by (induction ss arbitrary: d) (simp_all add: insert_source_def)

lemma insert_sources_tasks [simp]: "tasks (insert_sources documentId now ss d) = tasks d"
  by (induction ss arbitrary: d) (simp_all add: insert_source_def)

lemma insert_sources_file_chunks [simp]:
  "file_chunks (insert_sources documentId now ss d) = file_chunks d"
  by (induction ss arbitrary: d) (simp_all add: insert_source_def)

lemma insert_sources_vectorizers [simp]:
  "vectorizers (insert_sources documentId now ss d) = vectorizers d"
  by (induction ss arbitrary: d) (simp_all add: insert_source_def)

lemma insert_sources_sources:
  "sources (insert_sources documentId now ss d) =
     sources d @ map (\<lambda>s. \<lparr>src_document_id = documentId, src_url = source_url s, src_created_at = now\<rparr>) ss"
  by (induction ss arbitrary: d) (simp_all add: insert_source_def)

lemma select_chunks_none:
  assumes "documentId \<notin> set (map fc_document_id (file_chunks d))"
  shows "select_chunks d documentId = []"
proof -
  have "filter (\<lambda>c. fc_document_id c = documentId) (file_chunks d) = []"
    using assms by (auto simp: filter_empty_conv)
  then show ?thesis by (simp add: select_chunks_def)
qed

lemma update_task_progress_no_match:
  assumes "taskId \<notin> set (map task_id (tasks d))"
  shows "update_task_progress d progress message error status' now taskId = (0, d)"
proof -
  have f: "filter (\<lambda>t. task_id t = taskId) (tasks d) = []"
    using assms by (auto simp: filter_empty_conv)
  have m: "map (\<lambda>t. if task_id t = taskId
                    then update_task_row progress message error status' now t else t) (tasks d)
           = tasks d"
    using assms by (intro map_idI) auto
  show ?thesis unfolding update_task_progress_def by (simp add: f m)
qed

section \<open>The URL flow\<close>

text \<open>What the URL flow answers and leaves behind when its two identifiers are new.\<close>

lemma convert_source_fresh:
  assumes "req_sources data = Some srcs" and "srcs \<noteq> []"
    and "documentId \<notin> set (map doc_id (documents d))"
    and "taskId \<notin> set (map task_id (tasks d))"
  shows "convert_source taskId documentId now data d =
    (ConvertDocument
       \<lparr>rsp_task_id = taskId, rsp_status = Completed,
        rsp_message = Some ''Document conversion started'',
        rsp_progress = None, rsp_error = None\<rparr>
       \<lparr>res_document_id = documentId, res_pages = length srcs,
        res_format = ''json'', res_content = None\<rparr>,
     insert_sources documentId now srcs
       (d\<lparr>documents := documents d @
             [\<lparr>doc_id = documentId, doc_name = ''url-document'', doc_format = ''json'',
               doc_pages = length srcs, doc_created_at = now,
               doc_content = Some url_placeholder, doc_vectorizer_id = None\<rparr>],
          tasks := tasks d @
             [\<lparr>task_id = taskId, task_status = Completed, task_document_id = documentId,
               task_progress = Some 0, task_message = Some ''Document conversion started'',
               task_error = None, task_created_at = now, task_updated_at = now\<rparr>]\<rparr>))"
  using assms by (simp add: convert_source_def insert_document_def insert_task_def)

text \<open>
  Claim C10. Every URL-sync ingestion that passes validation stores the literal
  \<open>{"source":"url"}\<close> as the content of its document, whatever the sources are, and the
  result endpoint then answers for its task with exactly that text as content.
\<close>

theorem url_sync_placeholder_content:
  assumes "req_sources data = Some srcs" and "srcs \<noteq> []"
    and "fresh_document_id d documentId" and "fresh_task_id d taskId"
  shows \<open>get_result taskId (snd (convert_source taskId documentId now data d)) =
      ConvertDocument
        \<lparr>rsp_task_id = taskId, rsp_status = Completed,
         rsp_message = Some ''Document conversion started'',
         rsp_progress = Some 0, rsp_error = None\<rparr>
        \<lparr>res_document_id = documentId, res_pages = length srcs,
         res_format = ''json'', res_content = Some (js_literal ''{"source":"url"}'')\<rparr>
    \<and> map doc_content (filter (\<lambda>r. doc_id r = documentId)
          (documents (snd (convert_source taskId documentId now data d))))
        = [Some (js_literal ''{"source":"url"}'')]\<close>
proof -
  have nd: "\<forall>r \<in> set (documents d). doc_id r \<noteq> documentId"
    and nt: "\<forall>t \<in> set (tasks d). task_id t \<noteq> taskId"
    and ne: "taskId \<noteq> []"
    using assms(3,4) by (auto simp: fresh_document_id_def fresh_task_id_def)
  have d1: "documentId \<notin> set (map doc_id (documents d))"
    and t1: "taskId \<notin> set (map task_id (tasks d))"
    using nd nt by auto
  note st = convert_source_fresh [OF assms(1,2) d1 t1, of now]
  have ft: "find (\<lambda>t. task_id t = taskId)
              (tasks (snd (convert_source taskId documentId now data d)))
     = Some \<lparr>task_id = taskId, task_status = Completed, task_document_id = documentId,
             task_progress = Some 0, task_message = Some ''Document conversion started'',
             task_error = None, task_created_at = now, task_updated_at = now\<rparr>"
    using nt by (simp add: st find_fresh_snoc)
  have fd: "find (\<lambda>r. doc_id r = documentId)
              (documents (snd (convert_source taskId documentId now data d)))
     = Some \<lparr>doc_id = documentId, doc_name = ''url-document'', doc_format = ''json'',
             doc_pages = length srcs, doc_created_at = now,
             doc_content = Some url_placeholder, doc_vectorizer_id = None\<rparr>"
    using nd by (simp add: st find_fresh_snoc)
  have flt: "filter (\<lambda>r. doc_id r = documentId) (documents d) = []"
    using nd by (auto simp: filter_empty_conv)
  show ?thesis
    using ne by (simp add: get_result_def select_task_document_def ft fd)
      (simp add: st flt url_placeholder_def)
qed

theorem url_sync_placeholder_content_witness:
  \<open>get_result ''t1''
     (snd (convert_source ''t1'' ''d1'' 3
        \<lparr>req_sources = Some [SourceUrl ''https://a/b.pdf'', SourceObject ''https://c/d.pdf'' []],
         req_options = None\<rparr> empty_db)) =
      ConvertDocument
        \<lparr>rsp_task_id = ''t1'', rsp_status = Completed,
         rsp_message = Some ''Document conversion started'',
         rsp_progress = Some 0, rsp_error = None\<rparr>
        \<lparr>res_document_id = ''d1'', res_pages = 2,
         res_format = ''json'', res_content = Some (js_literal ''{"source":"url"}'')\<rparr>\<close>
  using url_sync_placeholder_content
    [of "\<lparr>req_sources = Some [SourceUrl ''https://a/b.pdf'', SourceObject ''https://c/d.pdf'' []],
         req_options = None\<rparr>"
        "[SourceUrl ''https://a/b.pdf'', SourceObject ''https://c/d.pdf'' []]"
        empty_db "''d1''" "''t1''" 3]
  by (simp add: fresh_document_id_def fresh_task_id_def empty_db_def)

section \<open>The progress callback\<close>

text \<open>
  Claim C4, as the code has it. A progress update whose task identifier matches no row
  of \<open>tasks\<close> writes nothing: the database after it is the database before it, in all
  five tables. It is answered 404 "Task not found" (the UPDATE changed zero rows) when the
  request carries a non-empty task identifier and a progress (a number or null), and 400
  "Invalid progress data" otherwise, the handler's validation coming before the UPDATE.
\<close>

theorem progress_update_unknown_task:
  assumes "\<forall>t \<in> set (tasks d). Some (task_id t) \<noteq> cb_task_id data"
  shows "progress_callback now data d =
     (if falsy (cb_task_id data) \<or> cb_progress data = Omitted
      then ErrorResponse 400 ''Invalid progress data''
      else ErrorResponse 404 ''Task not found'', d)"
proof (cases "falsy (cb_task_id data) \<or> cb_progress data = Omitted")
  case True
  then show ?thesis by (simp add: progress_callback_def)
next
  case False
  then obtain taskId where tid: "cb_task_id data = Some taskId"
    by (cases "cb_task_id data") simp_all
  have "taskId \<notin> set (map task_id (tasks d))" using assms tid by auto
  then show ?thesis
    using False by (simp add: progress_callback_def tid update_task_progress_no_match)
qed

theorem progress_update_unknown_task_witness:
  "progress_callback 7
     \<lparr>cb_task_id = Some ''stale'', cb_progress = Number 10, cb_message = Some ''m'',
      cb_error = None, cb_status = Some Completed\<rparr>
     \<lparr>documents = [],
      tasks = [\<lparr>task_id = ''t1'', task_status = Pending, task_document_id = ''d1'',
                task_progress = Some 0, task_message = None, task_error = None,
                task_created_at = 3, task_updated_at = 3\<rparr>],
      sources = [], file_chunks = [], vectorizers = []\<rparr>
   = (ErrorResponse 404 ''Task not found'',
      \<lparr>documents = [],
       tasks = [\<lparr>task_id = ''t1'', task_status = Pending, task_document_id = ''d1'',
                 task_progress = Some 0, task_message = None, task_error = None,
                 task_created_at = 3, task_updated_at = 3\<rparr>],
       sources = [], file_chunks = [], vectorizers = []\<rparr>)"
  using progress_update_unknown_task
    [of "\<lparr>documents = [],
      tasks = [\<lparr>task_id = ''t1'', task_status = Pending, task_document_id = ''d1'',
                task_progress = Some 0, task_message = None, task_error = None,
                task_created_at = 3, task_updated_at = 3\<rparr>],
      sources = [], file_chunks = [], vectorizers = []\<rparr>"
        "\<lparr>cb_task_id = Some ''stale'', cb_progress = Number 10, cb_message = Some ''m'',
          cb_error = None, cb_status = Some Completed\<rparr>" 7]
  by simp

text \<open>
  The claim as stated fails: an update with the empty task identifier, which matches no
  row, is answered 400 "Invalid progress data", not 404; so is one without progress.
\<close>

theorem progress_update_unknown_task_counterexample:
  "progress_callback 7
     \<lparr>cb_task_id = Some [], cb_progress = Number 10, cb_message = None,
      cb_error = None, cb_status = None\<rparr>
     \<lparr>documents = [],
      tasks = [\<lparr>task_id = ''t1'', task_status = Pending, task_document_id = ''d1'',
                task_progress = Some 0, task_message = None, task_error = None,
                task_created_at = 3, task_updated_at = 3\<rparr>],
      sources = [], file_chunks = [], vectorizers = []\<rparr>
   = (ErrorResponse 400 ''Invalid progress data'',
      \<lparr>documents = [],
       tasks = [\<lparr>task_id = ''t1'', task_status = Pending, task_document_id = ''d1'',
                 task_progress = Some 0, task_message = None, task_error = None,
                 task_created_at = 3, task_updated_at = 3\<rparr>],
       sources = [], file_chunks = [], vectorizers = []\<rparr>)"
  by (simp add: progress_callback_def)

section \<open>The file flow\<close>

lemma ceil_div_ceiling:
  assumes "0 < d"
  shows "ceil_div n d = nat \<lceil>real n / real d\<rceil>"
proof -
  define q where "q = (n + d - 1) div d"
  have lo: "q * d \<le> n + d - 1" unfolding q_def by simp
  have "n + d - 1 < d + (n + d - 1) div d * d"
    using dividend_less_div_times [OF assms, of "n + d - 1"] .
  then have hi: "n + d - 1 < d + q * d" unfolding q_def .
  have hi': "n \<le> q * d" using hi assms by linarith
  have "real n \<le> real q * real d" using hi' by (metis of_nat_le_iff of_nat_mult)
  then have u: "real n / real d \<le> real q" using assms by (simp add: field_simps)
  have l: "real q - 1 < real n / real d"
  proof (cases "q = 0")
    case True
    have "0 \<le> real n / real d" by simp
    then show ?thesis using True by linarith
  next
    case False
    then obtain k where k: "q = Suc k" by (cases q) auto
    have "k * d + d \<le> n + d - 1" using lo unfolding k by simp
    then have "k * d < n" using assms by linarith
    then have "(q - 1) * d < n" unfolding k by simp
    then have "real ((q - 1) * d) < real n" by (simp only: of_nat_less_iff)
    then have "(real q - 1) * real d < real n" using False by (simp add: of_nat_diff)
    then show ?thesis using assms by (simp add: field_simps)
  qed
  have "\<lceil>real n / real d\<rceil> = int q"
    using l u by (intro ceiling_unique) simp_all
  then show ?thesis by (simp add: ceil_div_def q_def)
qed

lemma substring_slice:
  assumes "a \<le> b" and "b \<le> length s"
  shows "substring s a b = take (b - a) (drop a s)"
  using assms by (simp add: substring_def Let_def min_def max_def)

lemma concat_slices: "concat (map (\<lambda>i. take k (drop (i * k) s)) [0..<n]) = take (n * k) s"
proof (induction n)
  case 0
  show ?case by simp
next
  case (Suc n)
  have "take (Suc n * k) s = take (n * k) s @ take k (drop (n * k) s)"
    using take_add [of "n * k" k s] by (simp add: add.commute)
  with Suc show ?case by simp
qed


lemma chunk_loop_fresh:
  assumes "\<forall>c \<in> set (file_chunks d). fc_document_id c = documentId \<longrightarrow> fc_chunk_index c < i"
  shows "chunk_loop documentId s n now i d =
     (True, d\<lparr>file_chunks := file_chunks d @
        map (\<lambda>j. \<lparr>fc_document_id = documentId, fc_chunk_index = j,
                   fc_content = substring s (j * CHUNK_SIZE_TOKENS)
                                  (min ((j + 1) * CHUNK_SIZE_TOKENS) (length s)),
                   fc_created_at = now\<rparr>) [i..<n]\<rparr>)"
  using assms
proof (induction documentId s n now i d rule: chunk_loop.induct)
  case (1 documentId s n now i d)
  show ?case
  proof (cases "i < n")
    case False
    then show ?thesis by (subst chunk_loop.simps) simp
  next
    case True
    let ?row = "\<lparr>fc_document_id = documentId, fc_chunk_index = i,
                 fc_content = substring s (i * CHUNK_SIZE_TOKENS)
                                (min ((i + 1) * CHUNK_SIZE_TOKENS) (length s)),
                 fc_created_at = now\<rparr>"
    let ?d' = "d\<lparr>file_chunks := file_chunks d @ [?row]\<rparr>"
    have ins: "insert_file_chunk d ?row = Some ?d'"
      using "1.prems" by (auto simp: insert_file_chunk_def)
    have pre: "\<forall>c \<in> set (file_chunks ?d'). fc_document_id c = documentId \<longrightarrow> fc_chunk_index c < i + 1"
      using "1.prems" by auto
    have ih: "chunk_loop documentId s n now (i + 1) ?d' =
       (True, ?d'\<lparr>file_chunks := file_chunks ?d' @
          map (\<lambda>j. \<lparr>fc_document_id = documentId, fc_chunk_index = j,
                   fc_content = substring s (j * CHUNK_SIZE_TOKENS)
                                  (min ((j + 1) * CHUNK_SIZE_TOKENS) (length s)),
                   fc_created_at = now\<rparr>) [i + 1..<n]\<rparr>)"
      using "1.IH" [OF True refl refl refl ins pre] .
    have upt: "[i..<n] = i # [i + 1..<n]" using True by (simp add: upt_conv_Cons)
    have step: "chunk_loop documentId s n now i d = chunk_loop documentId s n now (i + 1) ?d'"
      by (subst chunk_loop.simps) (simp only: True if_True Let_def ins option.case)
    show ?thesis
      unfolding step ih upt by simp
  qed
qed

lemma chunk_size_pos: "0 < CHUNK_SIZE_TOKENS"
  by (simp add: CHUNK_SIZE_TOKENS_def)

lemma get_or_create_vectorizer_tables:
  assumes "get_or_create_vectorizer d modelName ocrEngine newId now = Some (vid, d')"
  shows "documents d' = documents d" and "tasks d' = tasks d" and "sources d' = sources d"
    and "file_chunks d' = file_chunks d"
  using assms
  by (auto simp: get_or_create_vectorizer_def insert_vectorizer_def
           split: option.splits if_splits)

lemma update_document_vectorizer_tables [simp]:
  "tasks (update_document_vectorizer d v documentId) = tasks d"
  "sources (update_document_vectorizer d v documentId) = sources d"
  "file_chunks (update_document_vectorizer d v documentId) = file_chunks d"
  "vectorizers (update_document_vectorizer d v documentId) = vectorizers d"
  by (simp_all add: update_document_vectorizer_def)

text \<open>The file flow up to and including its chunk loop, for a new document identifier.\<close>

lemma convert_file_reduce:
  assumes files: "form_files form = f # others"
    and size: "file_size f \<le> MAX_FILE_SIZE_MB * (1024 * 1024)"
    and fresh: "fresh_document_id d documentId"
    and d2: "d2 = d\<lparr>documents := documents d @
               [\<lparr>doc_id = documentId, doc_name = file_name f,
                 doc_format = or_else (form_format form) ''json'',
                 doc_pages = length (form_files form), doc_created_at = now,
                 doc_content = (if length (file_text f) \<le> CHUNK_SIZE_TOKENS
                                then Some (file_text f) else None),
                 doc_vectorizer_id = None\<rparr>],
             file_chunks := file_chunks d @
               (if length (file_text f) > CHUNK_SIZE_TOKENS then
                  map (\<lambda>j. \<lparr>fc_document_id = documentId, fc_chunk_index = j,
                             fc_content = substring (file_text f) (j * CHUNK_SIZE_TOKENS)
                                (min ((j + 1) * CHUNK_SIZE_TOKENS) (length (file_text f))),
                             fc_created_at = now\<rparr>)
                      [0..<ceil_div (length (file_text f)) CHUNK_SIZE_TOKENS]
                else [])\<rparr>"
  shows "convert_file e taskId documentId vectorizerId now form d =
     (case insert_task d2
             \<lparr>task_id = taskId, task_status = Completed,
              task_document_id = documentId, task_progress = Some 0,
              task_message = Some ''Files processed successfully'',
              task_error = None, task_created_at = now,
              task_updated_at = now\<rparr> of
        None \<Rightarrow> (ErrorResponse 500 ''Failed to process files'', d2)
      | Some d3 \<Rightarrow>
          (case get_or_create_vectorizer d3 (model_name_of e (form_model form))
                  (or_else (form_ocr_engine form) ''easyocr'') vectorizerId now of
             None \<Rightarrow> (ErrorResponse 500 ''Failed to process files'', d3)
           | Some (vid, d4) \<Rightarrow>
               (ConvertDocument
                  \<lparr>rsp_task_id = taskId, rsp_status = Completed,
                   rsp_message = Some ''Files processed successfully'',
                   rsp_progress = None, rsp_error = None\<rparr>
                  \<lparr>res_document_id = documentId, res_pages = length (form_files form),
                   res_format = or_else (form_format form) ''json'', res_content = None\<rparr>,
                update_document_vectorizer d4 vid documentId)))"
proof -
  let ?row = "\<lparr>doc_id = documentId, doc_name = file_name f,
                 doc_format = or_else (form_format form) ''json'',
                 doc_pages = length (form_files form), doc_created_at = now,
                 doc_content = (if length (file_text f) \<le> CHUNK_SIZE_TOKENS
                                then Some (file_text f) else None),
                 doc_vectorizer_id = None\<rparr>"
  let ?d1 = "d\<lparr>documents := documents d @ [?row]\<rparr>"
  have ins: "insert_document d ?row = Some ?d1"
    using fresh by (simp add: insert_document_def fresh_document_id_def)
  have nochunks: "\<forall>c \<in> set (file_chunks ?d1). fc_document_id c = documentId \<longrightarrow> fc_chunk_index c < 0"
    using fresh by (auto simp: fresh_document_id_def)
  note loop = chunk_loop_fresh [OF nochunks, of "file_text f"
      "ceil_div (length (file_text f)) CHUNK_SIZE_TOKENS" now]
  have chunks: "(if length (file_text f) > CHUNK_SIZE_TOKENS
          then chunk_loop documentId (file_text f)
                 (ceil_div (length (file_text f)) CHUNK_SIZE_TOKENS) now 0 ?d1
          else (True, ?d1)) = (True, d2)"
    unfolding d2 loop by simp
  show ?thesis
    unfolding convert_file_def Let_def files list.case
    using size ins chunks
    by (simp only: files [symmetric] if_False not_less [symmetric] option.case
          case_prod_conv bool.case if_True list.size length_Cons)
qed

lemma insert_task_tables:
  assumes "insert_task d row = Some d'"
  shows "documents d' = documents d" and "sources d' = sources d"
    and "file_chunks d' = file_chunks d" and "vectorizers d' = vectorizers d"
    and "tasks d' = tasks d @ [row]"
  using assms by (auto simp: insert_task_def split: if_splits)

lemma update_document_vectorizer_documents:
  assumes "\<forall>r \<in> set rs. doc_id r \<noteq> documentId" and "doc_id row = documentId"
    and "documents d = rs @ [row]"
  shows "documents (update_document_vectorizer d v documentId) =
           rs @ [row\<lparr>doc_vectorizer_id := Some v\<rparr>]"
proof -
  have "map (\<lambda>r. if doc_id r = documentId then r\<lparr>doc_vectorizer_id := Some v\<rparr> else r) rs = rs"
    using assms(1) by (intro map_idI) auto
  then show ?thesis using assms(2,3) by (simp add: update_document_vectorizer_def)
qed

text \<open>The chunk rows and the document row after the file flow, however its later steps end.\<close>

lemma convert_file_stored:
  assumes files: "form_files form = f # others"
    and size: "file_size f \<le> MAX_FILE_SIZE_MB * (1024 * 1024)"
    and fresh: "fresh_document_id d documentId"
  shows "file_chunks (snd (convert_file e taskId documentId vectorizerId now form d)) =
           file_chunks d @
             (if length (file_text f) > CHUNK_SIZE_TOKENS then
                map (\<lambda>j. \<lparr>fc_document_id = documentId, fc_chunk_index = j,
                           fc_content = substring (file_text f) (j * CHUNK_SIZE_TOKENS)
                              (min ((j + 1) * CHUNK_SIZE_TOKENS) (length (file_text f))),
                           fc_created_at = now\<rparr>)
                    [0..<ceil_div (length (file_text f)) CHUNK_SIZE_TOKENS]
              else [])"
    and "\<exists>v. documents (snd (convert_file e taskId documentId vectorizerId now form d)) =
           documents d @
             [\<lparr>doc_id = documentId, doc_name = file_name f,
               doc_format = or_else (form_format form) ''json'',
               doc_pages = length (form_files form), doc_created_at = now,
               doc_content = (if length (file_text f) \<le> CHUNK_SIZE_TOKENS
                              then Some (file_text f) else None),
               doc_vectorizer_id = v\<rparr>]"
proof -
  let ?row = "\<lparr>doc_id = documentId, doc_name = file_name f,
               doc_format = or_else (form_format form) ''json'',
               doc_pages = length (form_files form), doc_created_at = now,
               doc_content = (if length (file_text f) \<le> CHUNK_SIZE_TOKENS
                              then Some (file_text f) else None),
               doc_vectorizer_id = None\<rparr>"
  let ?chunks = "(if length (file_text f) > CHUNK_SIZE_TOKENS then
                map (\<lambda>j. \<lparr>fc_document_id = documentId, fc_chunk_index = j,
                           fc_content = substring (file_text f) (j * CHUNK_SIZE_TOKENS)
                              (min ((j + 1) * CHUNK_SIZE_TOKENS) (length (file_text f))),
                           fc_created_at = now\<rparr>)
                    [0..<ceil_div (length (file_text f)) CHUNK_SIZE_TOKENS]
              else [])"
  define d2 where "d2 = d\<lparr>documents := documents d @ [?row], file_chunks := file_chunks d @ ?chunks\<rparr>"
  note red = convert_file_reduce [OF files size fresh d2_def, of e taskId vectorizerId]
  have nd: "\<forall>r \<in> set (documents d). doc_id r \<noteq> documentId"
    using fresh by (auto simp: fresh_document_id_def)
  have docs2: "documents d2 = documents d @ [?row]" and ch2: "file_chunks d2 = file_chunks d @ ?chunks"
    by (simp_all add: d2_def)
  let ?task = "\<lparr>task_id = taskId, task_status = Completed,
              task_document_id = documentId, task_progress = Some 0,
              task_message = Some ''Files processed successfully'',
              task_error = None, task_created_at = now,
              task_updated_at = now\<rparr>"
  show "file_chunks (snd (convert_file e taskId documentId vectorizerId now form d)) =
           file_chunks d @ ?chunks"
  proof (cases "insert_task d2 ?task")
    case None
    then show ?thesis by (simp add: red ch2)
  next
    case (Some d3)
    note t3 = insert_task_tables [OF Some]
    show ?thesis
    proof (cases "get_or_create_vectorizer d3 (model_name_of e (form_model form))
                  (or_else (form_ocr_engine form) ''easyocr'') vectorizerId now")
      case None
      then show ?thesis using Some by (simp add: red t3 ch2)
    next
      case (Some p)
      obtain vid d4 where p: "p = (vid, d4)" by (cases p)
      note t4 = get_or_create_vectorizer_tables [OF Some [unfolded p]]
      show ?thesis using \<open>insert_task d2 ?task = Some d3\<close> Some p
        by (simp add: red t3 t4 ch2)
    qed
  qed
  have "\<exists>v. documents (snd (convert_file e taskId documentId vectorizerId now form d)) =
           documents d @ [?row\<lparr>doc_vectorizer_id := v\<rparr>]"
  proof (cases "insert_task d2 ?task")
    case None
    then have "documents (snd (convert_file e taskId documentId vectorizerId now form d)) =
           documents d @ [?row\<lparr>doc_vectorizer_id := None\<rparr>]"
      by (simp add: red docs2)
    then show ?thesis by blast
  next
    case (Some d3)
    note t3 = insert_task_tables [OF Some]
    show ?thesis
    proof (cases "get_or_create_vectorizer d3 (model_name_of e (form_model form))
                  (or_else (form_ocr_engine form) ''easyocr'') vectorizerId now")
      case None
      then have "documents (snd (convert_file e taskId documentId vectorizerId now form d)) =
           documents d @ [?row\<lparr>doc_vectorizer_id := None\<rparr>]"
        using Some by (simp add: red t3 docs2)
      then show ?thesis by blast
    next
      case (Some p)
      obtain vid d4 where p: "p = (vid, d4)" by (cases p)
      note t4 = get_or_create_vectorizer_tables [OF Some [unfolded p]]
      have "documents d4 = documents d @ [?row]" by (simp add: t4 t3 docs2)
      from update_document_vectorizer_documents [OF nd _ this, of vid]
      have "documents (update_document_vectorizer d4 vid documentId) =
              documents d @ [?row\<lparr>doc_vectorizer_id := Some vid\<rparr>]" by simp
      then have "documents (snd (convert_file e taskId documentId vectorizerId now form d)) =
           documents d @ [?row\<lparr>doc_vectorizer_id := Some vid\<rparr>]"
        using \<open>insert_task d2 ?task = Some d3\<close> Some p by (simp add: red)
      then show ?thesis by blast
    qed
  qed
then show "\<exists>v. documents (snd (convert_file e taskId documentId vectorizerId now form d)) =
           documents d @
             [\<lparr>doc_id = documentId, doc_name = file_name f,
               doc_format = or_else (form_format form) ''json'',
               doc_pages = length (form_files form), doc_created_at = now,
               doc_content = (if length (file_text f) \<le> CHUNK_SIZE_TOKENS
                              then Some (file_text f) else None),
               doc_vectorizer_id = v\<rparr>]"
    by simp
qed

lemma ceil_div_bounds:
  assumes "0 < d" and "0 < n"
  shows "0 < ceil_div n d" and "(ceil_div n d - 1) * d < n" and "n \<le> ceil_div n d * d"
proof -
  define q where "q = (n + d - 1) div d"
  have lo: "q * d \<le> n + d - 1" unfolding q_def by simp
  have "n + d - 1 < d + (n + d - 1) div d * d"
    using dividend_less_div_times [OF assms(1), of "n + d - 1"] .
  then have hi: "n + d - 1 < d + q * d" unfolding q_def .
  show 3: "n \<le> ceil_div n d * d" using hi assms unfolding ceil_div_def q_def [symmetric] by linarith
  show 1: "0 < ceil_div n d" using 3 assms by (cases "ceil_div n d = 0") simp_all
  then obtain k where k: "q = Suc k" unfolding ceil_div_def q_def [symmetric] by (cases q) auto
  have "k * d + d \<le> n + d - 1" using lo unfolding k by simp
  then have "k * d < n" using assms by linarith
  then show "(ceil_div n d - 1) * d < n" unfolding ceil_div_def q_def [symmetric] k by simp
qed

lemma filter_new_rows:
  assumes "\<forall>x \<in> set xs. \<not> P x" and "\<forall>y \<in> set ys. P y"
  shows "filter P (xs @ ys) = ys" and "filter (\<lambda>x. \<not> P x) (xs @ ys) = xs"
proof -
  have "filter P xs = []" using assms(1) by (auto simp: filter_empty_conv)
  moreover have "filter P ys = ys" using assms(2) by (auto simp: filter_id_conv)
  ultimately show "filter P (xs @ ys) = ys" by simp
  have "filter (\<lambda>x. \<not> P x) xs = xs" using assms(1) by (auto simp: filter_id_conv)
  moreover have "filter (\<lambda>x. \<not> P x) ys = []" using assms(2) by (auto simp: filter_empty_conv)
  ultimately show "filter (\<lambda>x. \<not> P x) (xs @ ys) = xs" by simp
qed


lemma get_or_create_vectorizer_fresh:
  assumes "fresh_vectorizer_id d newId"
  shows "\<exists>vid d'. get_or_create_vectorizer d modelName ocrEngine newId now = Some (vid, d')"
  using assms
  by (simp add: get_or_create_vectorizer_def insert_vectorizer_def fresh_vectorizer_id_def
           split: option.splits)

text \<open>The task row and the response of the file flow.\<close>

lemma convert_file_tasks:
  assumes files: "form_files form = f # others"
    and size: "file_size f \<le> MAX_FILE_SIZE_MB * (1024 * 1024)"
    and fresh: "fresh_document_id d documentId"
    and tfresh: "fresh_task_id d taskId"
  shows "tasks (snd (convert_file e taskId documentId vectorizerId now form d)) =
           tasks d @
             [\<lparr>task_id = taskId, task_status = Completed,
               task_document_id = documentId, task_progress = Some 0,
               task_message = Some ''Files processed successfully'',
               task_error = None, task_created_at = now, task_updated_at = now\<rparr>]"
    and "fresh_vectorizer_id d vectorizerId \<Longrightarrow>
         fst (convert_file e taskId documentId vectorizerId now form d) =
           ConvertDocument
             \<lparr>rsp_task_id = taskId, rsp_status = Completed,
              rsp_message = Some ''Files processed successfully'',
              rsp_progress = None, rsp_error = None\<rparr>
             \<lparr>res_document_id = documentId, res_pages = length (form_files form),
              res_format = or_else (form_format form) ''json'', res_content = None\<rparr>"
proof -
  let ?task = "\<lparr>task_id = taskId, task_status = Completed,
               task_document_id = documentId, task_progress = Some 0,
               task_message = Some ''Files processed successfully'',
               task_error = None, task_created_at = now, task_updated_at = now\<rparr>"
  define d2 where "d2 = d\<lparr>documents := documents d @
               [\<lparr>doc_id = documentId, doc_name = file_name f,
                 doc_format = or_else (form_format form) ''json'',
                 doc_pages = length (form_files form), doc_created_at = now,
                 doc_content = (if length (file_text f) \<le> CHUNK_SIZE_TOKENS
                                then Some (file_text f) else None),
                 doc_vectorizer_id = None\<rparr>],
             file_chunks := file_chunks d @
               (if length (file_text f) > CHUNK_SIZE_TOKENS then
                  map (\<lambda>j. \<lparr>fc_document_id = documentId, fc_chunk_index = j,
                             fc_content = substring (file_text f) (j * CHUNK_SIZE_TOKENS)
                                (min ((j + 1) * CHUNK_SIZE_TOKENS) (length (file_text f))),
                             fc_created_at = now\<rparr>)
                      [0..<ceil_div (length (file_text f)) CHUNK_SIZE_TOKENS]
                else [])\<rparr>"
  note red = convert_file_reduce [OF files size fresh d2_def, of e taskId vectorizerId]
  have t2: "tasks d2 = tasks d" and v2: "vectorizers d2 = vectorizers d" by (simp_all add: d2_def)
  define d3 where "d3 = d2\<lparr>tasks := tasks d2 @ [?task]\<rparr>"
  have ins: "insert_task d2 ?task = Some d3"
    using tfresh by (simp add: insert_task_def fresh_task_id_def t2 d3_def)
  have t3: "tasks d3 = tasks d @ [?task]" and v3: "vectorizers d3 = vectorizers d"
    by (simp_all add: d3_def t2 v2)
  show "tasks (snd (convert_file e taskId documentId vectorizerId now form d)) = tasks d @ [?task]"
  proof (cases "get_or_create_vectorizer d3 (model_name_of e (form_model form))
                  (or_else (form_ocr_engine form) ''easyocr'') vectorizerId now")
    case None
    then show ?thesis by (simp add: red ins t3)
  next
    case (Some p)
    obtain vid d4 where p: "p = (vid, d4)" by (cases p)
    note t4 = get_or_create_vectorizer_tables [OF Some [unfolded p]]
    show ?thesis using Some p by (simp add: red ins t4 t3)
  qed
  show "fst (convert_file e taskId documentId vectorizerId now form d) =
           ConvertDocument
             \<lparr>rsp_task_id = taskId, rsp_status = Completed,
              rsp_message = Some ''Files processed successfully'',
              rsp_progress = None, rsp_error = None\<rparr>
             \<lparr>res_document_id = documentId, res_pages = length (form_files form),
              res_format = or_else (form_format form) ''json'', res_content = None\<rparr>"
    if vf: "fresh_vectorizer_id d vectorizerId"
  proof -
    have "fresh_vectorizer_id d3 vectorizerId" using vf by (simp add: fresh_vectorizer_id_def v3)
    from get_or_create_vectorizer_fresh [OF this]
    obtain vid d4 where "get_or_create_vectorizer d3 (model_name_of e (form_model form))
                  (or_else (form_ocr_engine form) ''easyocr'') vectorizerId now = Some (vid, d4)"
      by blast
    then show ?thesis by (simp add: red ins)
  qed
qed

lemma pos_of_gt: "(k::nat) < n \<Longrightarrow> 0 < n"
  by simp

lemma slice_take:
  assumes "0 < k"
  shows "take (min ((i + 1) * k) (length s) - i * k) (drop (i * k) s) = take k (drop (i * k) s)"
proof (cases "(i + 1) * k \<le> length s")
  case True
  then show ?thesis by (simp add: min_def)
next
  case False
  then have "length (drop (i * k) s) \<le> k" by simp
  moreover have "length (drop (i * k) s) \<le> min ((i + 1) * k) (length s) - i * k"
    using False by (simp add: min_def)
  ultimately show ?thesis by simp
qed


text \<open>The chunk rows of the new document, each slice written with \<open>take\<close> and \<open>drop\<close>.\<close>

lemma convert_file_chunk_rows:
  assumes files: "form_files form = f # others"
    and size: "file_size f \<le> MAX_FILE_SIZE_MB * (1024 * 1024)"
    and fresh: "fresh_document_id d documentId"
  shows "filter (\<lambda>c. fc_document_id c = documentId)
           (file_chunks (snd (convert_file e taskId documentId vectorizerId now form d))) =
         (if length (file_text f) > CHUNK_SIZE_TOKENS then
            map (\<lambda>j. \<lparr>fc_document_id = documentId, fc_chunk_index = j,
                       fc_content = take CHUNK_SIZE_TOKENS (drop (j * CHUNK_SIZE_TOKENS) (file_text f)),
                       fc_created_at = now\<rparr>)
                [0..<ceil_div (length (file_text f)) CHUNK_SIZE_TOKENS]
          else [])"
proof -
  let ?s = "file_text f"
  let ?T = CHUNK_SIZE_TOKENS
  let ?n = "ceil_div (length ?s) ?T"
  let ?new = "(if length ?s > ?T then
                 map (\<lambda>j. \<lparr>fc_document_id = documentId, fc_chunk_index = j,
                           fc_content = substring ?s (j * ?T) (min ((j + 1) * ?T) (length ?s)),
                           fc_created_at = now\<rparr>) [0..<?n]
               else [])"
  have Tpos: "0 < ?T" by (rule chunk_size_pos)
  note st = convert_file_stored(1) [OF files size fresh, of e taskId vectorizerId now]
  have nc: "\<forall>c \<in> set (file_chunks d). \<not> fc_document_id c = documentId"
    using fresh by (auto simp: fresh_document_id_def)
  have new: "\<forall>c \<in> set ?new. fc_document_id c = documentId" by auto
  have rows: "filter (\<lambda>c. fc_document_id c = documentId)
           (file_chunks (snd (convert_file e taskId documentId vectorizerId now form d))) = ?new"
    unfolding st by (rule filter_new_rows(1) [OF nc new])
  show ?thesis
  proof (cases "length ?s > ?T")
    case False
    then show ?thesis unfolding rows by simp
  next
    case True
    have Lpos: "0 < length ?s" using True by (rule pos_of_gt)
    note b = ceil_div_bounds [OF Tpos Lpos]
    have sub: "substring ?s (j * ?T) (min ((j + 1) * ?T) (length ?s)) = take ?T (drop (j * ?T) ?s)"
      if "j < ?n" for j
    proof -
      have "j \<le> ?n - 1" using that by simp
      then have "j * ?T \<le> (?n - 1) * ?T" by (rule mult_le_mono1)
      then have le: "j * ?T \<le> length ?s" using b(2) by linarith
      have "substring ?s (j * ?T) (min ((j + 1) * ?T) (length ?s))
          = take (min ((j + 1) * ?T) (length ?s) - j * ?T) (drop (j * ?T) ?s)"
        using le by (intro substring_slice) simp_all
      then show ?thesis by (simp only: slice_take [OF Tpos])
    qed
    show ?thesis unfolding rows using True sub by simp
  qed
qed

lemma convert_file_chunks_concat:
  assumes files: "form_files form = f # others"
    and size: "file_size f \<le> MAX_FILE_SIZE_MB * (1024 * 1024)"
    and fresh: "fresh_document_id d documentId"
  shows "concat (map fc_content (filter (\<lambda>c. fc_document_id c = documentId)
           (file_chunks (snd (convert_file e taskId documentId vectorizerId now form d))))) =
         (if length (file_text f) > CHUNK_SIZE_TOKENS then file_text f else [])"
proof (cases "length (file_text f) > CHUNK_SIZE_TOKENS")
  case False
  then show ?thesis by (simp add: convert_file_chunk_rows [OF files size fresh])
next
  case True
  have Lpos: "0 < length (file_text f)" using True by (rule pos_of_gt)
  note b = ceil_div_bounds [OF chunk_size_pos Lpos]
  show ?thesis
    using True b(3)
    by (simp add: convert_file_chunk_rows [OF files size fresh] comp_def concat_slices)
qed

lemma convert_file_select_chunks:
  assumes files: "form_files form = f # others"
    and size: "file_size f \<le> MAX_FILE_SIZE_MB * (1024 * 1024)"
    and fresh: "fresh_document_id d documentId"
  shows "select_chunks (snd (convert_file e taskId documentId vectorizerId now form d)) documentId
       = map (\<lambda>c. d1_text (fc_content c)) (filter (\<lambda>c. fc_document_id c = documentId)
           (file_chunks (snd (convert_file e taskId documentId vectorizerId now form d))))"
proof -
  let ?rows = "filter (\<lambda>c. fc_document_id c = documentId)
           (file_chunks (snd (convert_file e taskId documentId vectorizerId now form d)))"
  have "map fc_chunk_index ?rows =
      (if length (file_text f) > CHUNK_SIZE_TOKENS
       then [0..<ceil_div (length (file_text f)) CHUNK_SIZE_TOKENS] else [])"
    by (simp add: convert_file_chunk_rows [OF files size fresh] comp_def)
  then have "sorted (map fc_chunk_index ?rows)" by simp
  then have "sort_key fc_chunk_index ?rows = ?rows" by (rule sort_key_id_if_sorted)
  then show ?thesis by (simp add: select_chunks_def)
qed


text \<open>
  Claim C2. With \<open>L\<close> the length of the uploaded text and \<open>T\<close> the threshold
  \<open>CHUNK_SIZE_TOKENS\<close>: when \<open>L > T\<close> the file flow writes exactly \<open>\<lceil>L / T\<rceil>\<close> chunk rows
  for the document, row \<open>i\<close> holding the characters \<open>[i * T, min ((i + 1) * T) L)\<close> under the
  key \<open>(documentId, i)\<close>, every row \<open>T\<close> characters long except possibly the last, and
  the document row has no inline content; when \<open>L \<le> T\<close> the text is stored inline and no
  chunk row is written. The rows of other documents are untouched.
\<close>

theorem chunk_splitting:
  assumes files: "form_files form = f # others"
    and size: "file_size f \<le> MAX_FILE_SIZE_MB * (1024 * 1024)"
    and fresh: "fresh_document_id d documentId"
    and L: "L = length (file_text f)" and T: "T = CHUNK_SIZE_TOKENS"
    and n: "n = nat \<lceil>real L / real T\<rceil>"
    and d': "d' = snd (convert_file e taskId documentId vectorizerId now form d)"
  shows "(T < L \<longrightarrow>
           map (\<lambda>c. (fc_chunk_index c, fc_content c))
               (filter (\<lambda>c. fc_document_id c = documentId) (file_chunks d'))
             = map (\<lambda>i. (i, take (min ((i + 1) * T) L - i * T) (drop (i * T) (file_text f))))
                 [0..<n]
         \<and> map (\<lambda>c. length (fc_content c))
               (filter (\<lambda>c. fc_document_id c = documentId) (file_chunks d'))
             = replicate (n - 1) T @ [L - (n - 1) * T]
         \<and> 0 < L - (n - 1) * T \<and> L - (n - 1) * T \<le> T
         \<and> map doc_content (filter (\<lambda>r. doc_id r = documentId) (documents d')) = [None])
       \<and> (L \<le> T \<longrightarrow>
           filter (\<lambda>c. fc_document_id c = documentId) (file_chunks d') = []
         \<and> map doc_content (filter (\<lambda>r. doc_id r = documentId) (documents d'))
             = [Some (file_text f)])
       \<and> filter (\<lambda>c. fc_document_id c \<noteq> documentId) (file_chunks d') = file_chunks d"
proof -
  let ?s = "file_text f"
  let ?new = "(if L > T then
                map (\<lambda>j. \<lparr>fc_document_id = documentId, fc_chunk_index = j,
                           fc_content = substring ?s (j * T) (min ((j + 1) * T) L),
                           fc_created_at = now\<rparr>)
                    [0..<ceil_div L T]
              else [])"
  have Tpos: "0 < T" unfolding T by (rule chunk_size_pos)
  have nq: "n = ceil_div L T" unfolding n using ceil_div_ceiling [OF Tpos] by simp
  note st = convert_file_stored [OF files size fresh, of e taskId vectorizerId now,
      folded L T d']
  have chunks: "file_chunks d' = file_chunks d @ ?new" using st(1) .
  obtain v where docs: "documents d' = documents d @
             [\<lparr>doc_id = documentId, doc_name = file_name f,
               doc_format = or_else (form_format form) ''json'',
               doc_pages = length (form_files form), doc_created_at = now,
               doc_content = (if L \<le> T then Some ?s else None),
               doc_vectorizer_id = v\<rparr>]"
    using st(2) by blast
  have old: "\<forall>c \<in> set (file_chunks d). \<not> fc_document_id c = documentId"
    and oldd: "\<forall>r \<in> set (documents d). \<not> doc_id r = documentId"
    using fresh by (auto simp: fresh_document_id_def)
  have new: "\<forall>c \<in> set ?new. fc_document_id c = documentId" by auto
  have rows: "filter (\<lambda>c. fc_document_id c = documentId) (file_chunks d') = ?new"
    unfolding chunks by (rule filter_new_rows(1) [OF old new])
  have others: "filter (\<lambda>c. fc_document_id c \<noteq> documentId) (file_chunks d') = file_chunks d"
    unfolding chunks by (rule filter_new_rows(2) [OF old new])
  have drow: "map doc_content (filter (\<lambda>r. doc_id r = documentId) (documents d'))
      = [if L \<le> T then Some ?s else None]"
  proof -
    have "filter (\<lambda>r. doc_id r = documentId) (documents d) = []"
      using oldd by (auto simp: filter_empty_conv)
    then show ?thesis unfolding docs by simp
  qed
  have big: "map (\<lambda>c. (fc_chunk_index c, fc_content c)) ?new
             = map (\<lambda>i. (i, take (min ((i + 1) * T) L - i * T) (drop (i * T) ?s))) [0..<n]
         \<and> map (\<lambda>c. length (fc_content c)) ?new = replicate (n - 1) T @ [L - (n - 1) * T]
         \<and> 0 < L - (n - 1) * T \<and> L - (n - 1) * T \<le> T" if gt: "T < L"
  proof -
    have Lpos: "0 < L" using gt by simp
    note b = ceil_div_bounds [OF Tpos Lpos, folded nq]
    have le: "i * T \<le> L" if "i < n" for i
    proof -
      have "i \<le> n - 1" using that by simp
      then have "i * T \<le> (n - 1) * T" by (rule mult_le_mono1)
      then show ?thesis using b(2) by linarith
    qed
    have sub: "substring ?s (i * T) (min ((i + 1) * T) L)
                 = take (min ((i + 1) * T) L - i * T) (drop (i * T) ?s)" if "i < n" for i
      using le [OF that] by (intro substring_slice) (simp_all add: L)
    have c1: "map (\<lambda>c. (fc_chunk_index c, fc_content c)) ?new
             = map (\<lambda>i. (i, take (min ((i + 1) * T) L - i * T) (drop (i * T) ?s))) [0..<n]"
      using gt sub by (simp add: nq)
    have len: "length (take (min ((i + 1) * T) L - i * T) (drop (i * T) ?s))
        = (if i < n - 1 then T else L - (n - 1) * T)" if "i < n" for i
    proof (cases "i < n - 1")
      case True
      then have "i + 1 \<le> n - 1" by simp
      then have "(i + 1) * T \<le> (n - 1) * T" by (rule mult_le_mono1)
      then have "(i + 1) * T \<le> L" using b(2) by linarith
      then have le': "i * T + T \<le> L" by simp
      have m: "min ((i + 1) * T) L - i * T = T" using le' by (simp add: min_def)
      have "T \<le> L - i * T" using le' by linarith
      then show ?thesis using True unfolding m by (simp add: L [symmetric])
    next
      case False
      then have i: "i = n - 1" using that by simp
      have up: "L \<le> (n - 1) * T + T" using b(3) b(1) by (cases n) (simp_all add: algebra_simps)
      have "n - 1 + 1 = n" using b(1) by simp
      then have m: "min ((n - 1 + 1) * T) L - (n - 1) * T = L - (n - 1) * T"
        using b(3) by (simp add: min_def)
      show ?thesis using False unfolding i m by (simp add: L [symmetric])
    qed
    have upt: "[0..<n] = [0..<n - 1] @ [n - 1]" using b(1) by (cases n) simp_all
    have "map (\<lambda>c. length (fc_content c)) ?new
        = map (\<lambda>i. length (take (min ((i + 1) * T) L - i * T) (drop (i * T) ?s))) [0..<n]"
      using gt sub by (simp add: nq)
    also have "\<dots> = map (\<lambda>i. if i < n - 1 then T else L - (n - 1) * T) [0..<n]"
      using len by (intro map_cong) simp_all
    also have "\<dots> = map (\<lambda>i. T) [0..<n - 1] @ [L - (n - 1) * T]"
      unfolding upt by simp
    also have "\<dots> = replicate (n - 1) T @ [L - (n - 1) * T]"
      by (simp add: map_replicate_const)
    finally have c2: "map (\<lambda>c. length (fc_content c)) ?new
        = replicate (n - 1) T @ [L - (n - 1) * T]" .
    have c3: "0 < L - (n - 1) * T" using b(2) by simp
    have c4: "L - (n - 1) * T \<le> T" using b(3) b(1) by (cases n) (simp_all add: algebra_simps)
    show ?thesis using c1 c2 c3 c4 by blast
  qed
  have small: "filter (\<lambda>c. fc_document_id c = documentId) (file_chunks d') = []" if "L \<le> T"
    unfolding rows using that by simp
  show ?thesis
    using big small drow others unfolding rows by simp
qed

theorem chunk_splitting_witness:
  "map (\<lambda>c. length (fc_content c))
     (filter (\<lambda>c. fc_document_id c = ''d1'')
        (file_chunks (snd (convert_file \<lparr>DEFAULT_MODEL = None\<rparr> ''t1'' ''d1'' ''v1'' 4
           \<lparr>form_files = [\<lparr>file_name = ''a.txt'', file_size = 2500,
                            file_text = replicate 2500 0x78\<rparr>],
            form_format = None, form_ocr_engine = None, form_model = None\<rparr> empty_db))))
   = replicate 2 1000 @ [500]"
proof -
  have fresh: "fresh_document_id empty_db ''d1''"
    by (simp add: fresh_document_id_def empty_db_def)
  have size: "file_size \<lparr>file_name = ''a.txt'', file_size = 2500,
                file_text = replicate 2500 0x78\<rparr> \<le> MAX_FILE_SIZE_MB * (1024 * 1024)"
    by (simp add: MAX_FILE_SIZE_MB_def)
  have n: "(3::nat) = nat \<lceil>real (2500::nat) / real (1000::nat)\<rceil>" by simp
  show ?thesis
    using chunk_splitting [where form = "\<lparr>form_files = [\<lparr>file_name = ''a.txt'', file_size = 2500,
                            file_text = replicate 2500 0x78\<rparr>],
            form_format = None, form_ocr_engine = None, form_model = None\<rparr>"
        and f = "\<lparr>file_name = ''a.txt'', file_size = 2500,
                            file_text = replicate 2500 0x78\<rparr>"
        and others = "[]" and d = empty_db and documentId = "''d1''" and L = 2500 and T = 1000
        and n = 3 and e = "\<lparr>DEFAULT_MODEL = None\<rparr>" and taskId = "''t1''"
        and vectorizerId = "''v1''" and now = 4, OF _ size fresh _ _ n refl]
    by (simp add: CHUNK_SIZE_TOKENS_def)
qed

text \<open>
  What the result endpoint answers after the file flow: the stored pieces of the text, each
  as the database returns it, joined; nothing for the empty text.
\<close>

lemma file_result_content:
  assumes files: "form_files form = f # others"
    and size: "file_size f \<le> MAX_FILE_SIZE_MB * (1024 * 1024)"
    and fresh: "fresh_document_id d documentId"
    and tfresh: "fresh_task_id d taskId"
  shows "\<exists>ts res.
           get_result taskId (snd (convert_file e taskId documentId vectorizerId now form d))
             = ConvertDocument ts res
         \<and> res_content res =
               (if file_text f = [] then None
                else Some (concat (map (\<lambda>i. d1_text (take CHUNK_SIZE_TOKENS
                                                 (drop (i * CHUNK_SIZE_TOKENS) (file_text f))))
                                   [0..<ceil_div (length (file_text f)) CHUNK_SIZE_TOKENS])))"
proof -
  let ?s = "file_text f"
  let ?T = CHUNK_SIZE_TOKENS
  let ?n = "ceil_div (length ?s) ?T"
  let ?joined = "concat (map (\<lambda>i. d1_text (take ?T (drop (i * ?T) ?s))) [0..<?n])"
  define d' where "d' = snd (convert_file e taskId documentId vectorizerId now form d)"
  let ?task = "\<lparr>task_id = taskId, task_status = Completed,
               task_document_id = documentId, task_progress = Some 0,
               task_message = Some ''Files processed successfully'',
               task_error = None, task_created_at = now, task_updated_at = now\<rparr>"
  have tasks': "tasks d' = tasks d @ [?task]"
    unfolding d'_def by (rule convert_file_tasks(1) [OF files size fresh tfresh])
  obtain v where docs: "documents d' = documents d @
             [\<lparr>doc_id = documentId, doc_name = file_name f,
               doc_format = or_else (form_format form) ''json'',
               doc_pages = length (form_files form), doc_created_at = now,
               doc_content = (if length ?s \<le> ?T then Some ?s else None),
               doc_vectorizer_id = v\<rparr>]" (is "_ = _ @ [?doc]")
    using convert_file_stored(2) [OF files size fresh, of e taskId vectorizerId now]
    unfolding d'_def by blast
  have nt: "\<forall>t \<in> set (tasks d). \<not> task_id t = taskId" and tne: "taskId \<noteq> []"
    using tfresh by (auto simp: fresh_task_id_def)
  have nd: "\<forall>r \<in> set (documents d). \<not> doc_id r = documentId" and dne: "documentId \<noteq> []"
    using fresh by (auto simp: fresh_document_id_def)
  have ft: "find (\<lambda>t. task_id t = taskId) (tasks d') = Some ?task"
    unfolding tasks' using nt by (intro find_fresh_snoc) simp_all
  have fd: "find (\<lambda>r. doc_id r = documentId) (documents d') = Some ?doc"
    unfolding docs using nd by (intro find_fresh_snoc) simp_all
  have sel: "select_task_document d' taskId = Some (?task, ?doc)"
    by (simp add: select_task_document_def ft fd)
  note rows = convert_file_chunk_rows [OF files size fresh, of e taskId vectorizerId now,
      folded d'_def]
  note chunks = convert_file_select_chunks [OF files size fresh, of e taskId vectorizerId now,
      folded d'_def]
  have Tpos: "0 < ?T" by (rule chunk_size_pos)
  have rc: "res_content (case get_result taskId d' of ConvertDocument ts res \<Rightarrow> res)
      = (if ?s = [] then None else Some ?joined)"
  proof (cases "length ?s > ?T")
    case True
    then have ne: "?s \<noteq> []" by (cases "file_text f") simp_all
    have Lpos: "0 < length ?s" using True by (rule pos_of_gt)
    have npos: "0 < ?n" by (rule ceil_div_bounds(1) [OF Tpos Lpos])
    have sc: "select_chunks d' documentId = map (\<lambda>i. d1_text (take ?T (drop (i * ?T) ?s))) [0..<?n]"
      using True by (simp add: chunks rows comp_def)
    have len: "0 < length (select_chunks d' documentId)" using npos by (simp add: sc)
    have "take ?T ?s \<noteq> []" using ne Tpos by simp
    then have "d1_text (take ?T (drop (0 * ?T) ?s)) \<noteq> []" by simp
    moreover have "[0..<?n] = 0 # [1..<?n]" using npos by (simp add: upt_conv_Cons)
    ultimately have bne: "?joined \<noteq> []" by simp
    show ?thesis
      using True tne dne ne len bne by (simp add: get_result_def sel Let_def sc)
  next
    case False
    then have none: "select_chunks d' documentId = []" by (simp add: chunks rows)
    show ?thesis
    proof (cases "?s = []")
      case True
      then show ?thesis using False tne dne none by (simp add: get_result_def sel Let_def)
    next
      case ne: False
      then have Lpos: "0 < length ?s" by simp
      note b = ceil_div_bounds [OF Tpos Lpos]
      have lt: "(?n - 1) * ?T < ?T" using b(2) False by linarith
      have "?n - 1 = 0"
      proof (rule ccontr)
        assume "?n - 1 \<noteq> 0"
        then have "1 \<le> ?n - 1" by simp
        then have "1 * ?T \<le> (?n - 1) * ?T" by (rule mult_le_mono1)
        then show False using lt by simp
      qed
      then have n1: "?n = 1" using b(1) by simp
      have whole: "take ?T ?s = ?s" using False by simp
      have "?joined = d1_text ?s" by (simp add: n1 whole)
      then show ?thesis
        using False tne dne ne by (simp add: get_result_def sel Let_def)
    qed
  qed
  show ?thesis
    unfolding d'_def [symmetric]
    using tne rc by (simp add: get_result_def sel Let_def)
qed

text \<open>
  Claim C1, as the code has it. After the file flow has written a text \<open>C\<close> (inline when
  \<open>|C| \<le> T\<close>, as chunks otherwise), the result endpoint answers for the task of that
  document with the stored pieces of \<open>C\<close> (\<open>C\<close> itself, or its slices of \<open>T\<close> code units) read
  back and joined. That is exactly \<open>C\<close> for every non-empty \<open>C\<close> whose pieces are well-formed
  UTF-16, which a well-formed \<open>C\<close> has when no slice boundary falls between the two halves
  of a surrogate pair. For the empty text the answer carries no content field, since the
  endpoint treats an empty string as absent.
\<close>

theorem content_round_trip:
  assumes files: "form_files form = f # others"
    and size: "file_size f \<le> MAX_FILE_SIZE_MB * (1024 * 1024)"
    and fresh: "fresh_document_id d documentId"
    and tfresh: "fresh_task_id d taskId"
  shows "\<exists>ts res.
           get_result taskId (snd (convert_file e taskId documentId vectorizerId now form d))
             = ConvertDocument ts res
         \<and> rsp_task_id ts = taskId \<and> res_document_id res = documentId
         \<and> res_content res =
               (if file_text f = [] then None
                else Some (concat (map (\<lambda>i. d1_text (take CHUNK_SIZE_TOKENS
                                                 (drop (i * CHUNK_SIZE_TOKENS) (file_text f))))
                                   [0..<ceil_div (length (file_text f)) CHUNK_SIZE_TOKENS])))
         \<and> ((\<forall>i. well_formed (take CHUNK_SIZE_TOKENS (drop (i * CHUNK_SIZE_TOKENS) (file_text f))))
              \<longrightarrow> res_content res = (if file_text f = [] then None else Some (file_text f)))
         \<and> (well_formed (file_text f)
              \<and> (\<forall>i. unsplit (file_text f) (i * CHUNK_SIZE_TOKENS))
              \<longrightarrow> res_content res = (if file_text f = [] then None else Some (file_text f)))"
proof -
  let ?s = "file_text f"
  let ?T = CHUNK_SIZE_TOKENS
  let ?n = "ceil_div (length ?s) ?T"
  let ?joined = "concat (map (\<lambda>i. d1_text (take ?T (drop (i * ?T) ?s))) [0..<?n])"
  define d' where "d' = snd (convert_file e taskId documentId vectorizerId now form d)"
  let ?task = "\<lparr>task_id = taskId, task_status = Completed,
               task_document_id = documentId, task_progress = Some 0,
               task_message = Some ''Files processed successfully'',
               task_error = None, task_created_at = now, task_updated_at = now\<rparr>"
  have tasks': "tasks d' = tasks d @ [?task]"
    unfolding d'_def by (rule convert_file_tasks(1) [OF files size fresh tfresh])
  obtain v where docs: "documents d' = documents d @
             [\<lparr>doc_id = documentId, doc_name = file_name f,
               doc_format = or_else (form_format form) ''json'',
               doc_pages = length (form_files form), doc_created_at = now,
               doc_content = (if length ?s \<le> ?T then Some ?s else None),
               doc_vectorizer_id = v\<rparr>]" (is "_ = _ @ [?doc]")
    using convert_file_stored(2) [OF files size fresh, of e taskId vectorizerId now]
    unfolding d'_def by blast
  have nt: "\<forall>t \<in> set (tasks d). \<not> task_id t = taskId" and tne: "taskId \<noteq> []"
    using tfresh by (auto simp: fresh_task_id_def)
  have nd: "\<forall>r \<in> set (documents d). \<not> doc_id r = documentId" and dne: "documentId \<noteq> []"
    using fresh by (auto simp: fresh_document_id_def)
  have ft: "find (\<lambda>t. task_id t = taskId) (tasks d') = Some ?task"
    unfolding tasks' using nt by (intro find_fresh_snoc) simp_all
  have fd: "find (\<lambda>r. doc_id r = documentId) (documents d') = Some ?doc"
    unfolding docs using nd by (intro find_fresh_snoc) simp_all
  have sel: "select_task_document d' taskId = Some (?task, ?doc)"
    by (simp add: select_task_document_def ft fd)
  note rows = convert_file_chunk_rows [OF files size fresh, of e taskId vectorizerId now,
      folded d'_def]
  note chunks = convert_file_select_chunks [OF files size fresh, of e taskId vectorizerId now,
      folded d'_def]
  have Tpos: "0 < ?T" by (rule chunk_size_pos)
  have rc: "res_content (case get_result taskId d' of ConvertDocument ts res \<Rightarrow> res)
      = (if ?s = [] then None else Some ?joined)"
    using file_result_content [OF files size fresh tfresh, of e vectorizerId now, folded d'_def]
    by auto
  have exact: "res_content (case get_result taskId d' of ConvertDocument ts res \<Rightarrow> res)
      = (if ?s = [] then None else Some ?s)"
    if wf: "\<forall>i. well_formed (take ?T (drop (i * ?T) ?s))"
  proof (cases "?s = []")
    case True
    then show ?thesis by (simp add: rc)
  next
    case False
    then have Lpos: "0 < length ?s" by simp
    note b = ceil_div_bounds [OF Tpos Lpos]
    have "?joined = concat (map (\<lambda>i. take ?T (drop (i * ?T) ?s)) [0..<?n])"
      using wf by (simp add: d1_text_well_formed)
    also have "\<dots> = take (?n * ?T) ?s" by (rule concat_slices)
    also have "\<dots> = ?s" using b(3) by simp
    finally show ?thesis using False by (simp add: rc)
  qed
  have exact': "res_content (case get_result taskId d' of ConvertDocument ts res \<Rightarrow> res)
      = (if ?s = [] then None else Some ?s)"
    if wf: "well_formed ?s" and us: "\<forall>i. unsplit ?s (i * ?T)"
  proof -
    have "well_formed (take ?T (drop (i * ?T) ?s))" for i
      using well_formed_slice [OF wf, of i ?T] us by blast
    then show ?thesis using exact by blast
  qed
  show ?thesis
    unfolding d'_def [symmetric]
    using tne rc exact exact' by (simp add: get_result_def sel Let_def)
qed

theorem content_round_trip_witness:
  "\<exists>ts res.
     get_result ''t1''
       (snd (convert_file \<lparr>DEFAULT_MODEL = None\<rparr> ''t1'' ''d1'' ''v1'' 4
          \<lparr>form_files = [\<lparr>file_name = ''a.txt'', file_size = 10007,
                           file_text = replicate 10007 0x78\<rparr>],
           form_format = None, form_ocr_engine = None, form_model = None\<rparr> empty_db))
       = ConvertDocument ts res
     \<and> res_content res = Some (replicate 10007 0x78)"
proof -
  have fresh: "fresh_document_id empty_db ''d1''"
    by (simp add: fresh_document_id_def empty_db_def)
  have tfresh: "fresh_task_id empty_db ''t1''"
    by (simp add: fresh_task_id_def empty_db_def)
  have size: "file_size \<lparr>file_name = ''a.txt'', file_size = 10007,
                file_text = replicate 10007 0x78\<rparr> \<le> MAX_FILE_SIZE_MB * (1024 * 1024)"
    by (simp add: MAX_FILE_SIZE_MB_def)
  have wf: "well_formed (take CHUNK_SIZE_TOKENS (drop (i * CHUNK_SIZE_TOKENS)
              (replicate 10007 (0x78 :: code_unit))))" for i
    by (simp add: well_formed_replicate is_high_surrogate_def is_low_surrogate_def)
  from content_round_trip [where form = "\<lparr>form_files = [\<lparr>file_name = ''a.txt'',
                file_size = 10007, file_text = replicate 10007 0x78\<rparr>],
            form_format = None, form_ocr_engine = None, form_model = None\<rparr>"
        and f = "\<lparr>file_name = ''a.txt'', file_size = 10007,
                  file_text = replicate 10007 0x78\<rparr>"
        and others = "[]" and d = empty_db and documentId = "''d1''"
        and e = "\<lparr>DEFAULT_MODEL = None\<rparr>" and taskId = "''t1''"
        and vectorizerId = "''v1''" and now = 4, OF _ size fresh tfresh]
  obtain ts res where r: "get_result ''t1''
       (snd (convert_file \<lparr>DEFAULT_MODEL = None\<rparr> ''t1'' ''d1'' ''v1'' 4
          \<lparr>form_files = [\<lparr>file_name = ''a.txt'', file_size = 10007,
                           file_text = replicate 10007 0x78\<rparr>],
           form_format = None, form_ocr_engine = None, form_model = None\<rparr> empty_db))
       = ConvertDocument ts res"
    and c: "(\<forall>i. well_formed (take CHUNK_SIZE_TOKENS (drop (i * CHUNK_SIZE_TOKENS)
              (replicate 10007 (0x78 :: code_unit)))))
          \<longrightarrow> res_content res = (if replicate 10007 (0x78 :: code_unit) = [] then None
                                   else Some (replicate 10007 0x78))"
    by auto
  have "res_content res = Some (replicate 10007 0x78)" using c wf by simp
  then show ?thesis using r by blast
qed

text \<open>
  The claim as stated fails at the empty text: an empty upload is stored inline as the
  empty string, and the result endpoint answers without a content field.
\<close>

theorem content_round_trip_counterexample:
  "get_result ''t1''
     (snd (convert_file \<lparr>DEFAULT_MODEL = None\<rparr> ''t1'' ''d1'' ''v1'' 4
        \<lparr>form_files = [\<lparr>file_name = ''empty.txt'', file_size = 0, file_text = []\<rparr>],
         form_format = None, form_ocr_engine = None, form_model = None\<rparr> empty_db))
   = ConvertDocument
       \<lparr>rsp_task_id = ''t1'', rsp_status = Completed,
        rsp_message = Some ''Files processed successfully'',
        rsp_progress = Some 0, rsp_error = None\<rparr>
       \<lparr>res_document_id = ''d1'', res_pages = 1, res_format = ''json'', res_content = None\<rparr>"
  by (simp add: convert_file_def get_result_def empty_db_def insert_document_def
      insert_task_def get_or_create_vectorizer_def select_vectorizer_id_def
      insert_vectorizer_def update_document_vectorizer_def select_task_document_def
      select_chunks_def or_else_def model_name_of_def MAX_FILE_SIZE_MB_def
      CHUNK_SIZE_TOKENS_def Let_def)

lemma d1_text_Cons_plain:
  assumes "\<not> is_high_surrogate u" and "\<not> is_low_surrogate u"
  shows "d1_text (u # s) = u # d1_text s"
  using assms by (cases s) simp_all

lemma d1_text_replicate_plain:
  assumes "\<not> is_high_surrogate u" and "\<not> is_low_surrogate u"
  shows "d1_text (replicate n u @ s) = replicate n u @ d1_text s"
  using assms by (induction n) (simp_all add: d1_text_Cons_plain)

text \<open>
  A pair cut by a slice boundary: 999 times \<open>x\<close>, then U+1F600 (two code units) and \<open>y\<close>
  are stored as two chunks, each with half of the pair, and come out as 1006 code units.
\<close>

lemma split_surrogate_pair:
  "\<exists>ts res.
     get_result ''t1''
       (snd (convert_file \<lparr>DEFAULT_MODEL = None\<rparr> ''t1'' ''d1'' ''v1'' 4
          \<lparr>form_files = [\<lparr>file_name = ''a.txt'', file_size = 1004,
                           file_text = replicate 999 0x78 @ [0xD83D, 0xDE00, 0x79]\<rparr>],
           form_format = None, form_ocr_engine = None, form_model = None\<rparr> empty_db))
       = ConvertDocument ts res
     \<and> res_content res
         = Some (replicate 999 0x78 @ [0xFFFD, 0xFFFD, 0xFFFD, 0xFFFD, 0xFFFD, 0xFFFD, 0x79])"
proof -
  let ?s = "replicate 999 (0x78 :: code_unit) @ [0xD83D, 0xDE00, 0x79]"
  have fresh: "fresh_document_id empty_db ''d1''"
    by (simp add: fresh_document_id_def empty_db_def)
  have tfresh: "fresh_task_id empty_db ''t1''"
    by (simp add: fresh_task_id_def empty_db_def)
  have size: "file_size \<lparr>file_name = ''a.txt'', file_size = 1004, file_text = ?s\<rparr>
      \<le> MAX_FILE_SIZE_MB * (1024 * 1024)"
    by (simp add: MAX_FILE_SIZE_MB_def)
  have plain: "\<not> is_high_surrogate (0x78 :: code_unit)" "\<not> is_low_surrogate (0x78 :: code_unit)"
    by (simp_all add: is_high_surrogate_def is_low_surrogate_def)
  have n: "ceil_div (length ?s) CHUNK_SIZE_TOKENS = 2"
    by (simp add: ceil_div_def CHUNK_SIZE_TOKENS_def)
  have u: "[0..<2] = [0, 1]" by (simp add: upt_rec)
  have p0: "take CHUNK_SIZE_TOKENS (drop (0 * CHUNK_SIZE_TOKENS) ?s) = replicate 999 0x78 @ [0xD83D]"
    by (simp add: CHUNK_SIZE_TOKENS_def)
  have p1: "take CHUNK_SIZE_TOKENS (drop (1 * CHUNK_SIZE_TOKENS) ?s) = [0xDE00, 0x79]"
    by (simp add: CHUNK_SIZE_TOKENS_def)
  have r0: "d1_text (replicate 999 0x78 @ [0xD83D :: code_unit])
      = replicate 999 0x78 @ [0xFFFD, 0xFFFD, 0xFFFD]"
    by (simp add: d1_text_replicate_plain [OF plain] is_high_surrogate_def)
  have r1: "d1_text [0xDE00 :: code_unit, 0x79] = [0xFFFD, 0xFFFD, 0xFFFD, 0x79]"
    by (simp add: is_high_surrogate_def is_low_surrogate_def)
  have j: "concat (map (\<lambda>i. d1_text (take CHUNK_SIZE_TOKENS (drop (i * CHUNK_SIZE_TOKENS) ?s)))
        [0..<ceil_div (length ?s) CHUNK_SIZE_TOKENS])
      = replicate 999 0x78 @ [0xFFFD, 0xFFFD, 0xFFFD, 0xFFFD, 0xFFFD, 0xFFFD, 0x79]"
    unfolding n u by (simp only: list.map concat.simps p0 p1 r0 r1 append_Nil2) simp
  let ?f = "\<lparr>file_name = ''a.txt'', file_size = 1004, file_text = ?s\<rparr>"
  let ?form = "\<lparr>form_files = [?f], form_format = None, form_ocr_engine = None,
      form_model = None\<rparr>"
  have files: "form_files ?form = ?f # []" by simp
  have ft: "file_text ?f = ?s" by simp
  have ne: "(?s = []) = False" by simp
  note r = file_result_content [OF files size fresh tfresh,
      of "\<lparr>DEFAULT_MODEL = None\<rparr>" "''v1''" 4, unfolded ft j ne if_False]
  show ?thesis by (rule r)
qed

text \<open>
  Claim C9. A file request with files \<open>f # others\<close> is handled from \<open>f\<close> and the number
  of files alone: replacing the other files by any others, of any size and content,
  changes neither the answer nor the database. Only \<open>f\<close> is held against the size limit;
  only the text of \<open>f\<close> is stored, inline or as chunks; the \<open>pages\<close> of the document row
  and of the response are the number of files.
\<close>

theorem first_file_only:
  assumes files: "form_files form = f # others"
    and d': "d' = snd (convert_file e taskId documentId vectorizerId now form d)"
  shows "(\<forall>others'. length others' = length others \<longrightarrow>
            convert_file e taskId documentId vectorizerId now (form\<lparr>form_files := f # others'\<rparr>) d
              = convert_file e taskId documentId vectorizerId now form d)
       \<and> (MAX_FILE_SIZE_MB * (1024 * 1024) < file_size f \<longrightarrow>
            convert_file e taskId documentId vectorizerId now form d
              = (ErrorResponse 400 ''File size exceeds the 5 MB limit'', d))
       \<and> (file_size f \<le> MAX_FILE_SIZE_MB * (1024 * 1024) \<and> fresh_document_id d documentId
            \<and> fresh_task_id d taskId \<and> fresh_vectorizer_id d vectorizerId \<longrightarrow>
            (\<exists>ts res. fst (convert_file e taskId documentId vectorizerId now form d)
                        = ConvertDocument ts res
                    \<and> res_pages res = 1 + length others)
          \<and> map doc_pages (filter (\<lambda>r. doc_id r = documentId) (documents d')) = [1 + length others]
          \<and> map doc_name (filter (\<lambda>r. doc_id r = documentId) (documents d')) = [file_name f]
          \<and> map doc_content (filter (\<lambda>r. doc_id r = documentId) (documents d'))
               = [if length (file_text f) \<le> CHUNK_SIZE_TOKENS then Some (file_text f) else None]
          \<and> concat (map fc_content (filter (\<lambda>c. fc_document_id c = documentId) (file_chunks d')))
               = (if length (file_text f) \<le> CHUNK_SIZE_TOKENS then [] else file_text f))"
proof -
  have A: "convert_file e taskId documentId vectorizerId now (form\<lparr>form_files := f # others'\<rparr>) d
              = convert_file e taskId documentId vectorizerId now form d"
    if "length others' = length others" for others'
  proof -
    have len: "length (f # others') = length (f # others)" using that by simp
    have sel: "form_files (form\<lparr>form_files := f # others'\<rparr>) = f # others'"
      "form_format (form\<lparr>form_files := f # others'\<rparr>) = form_format form"
      "form_ocr_engine (form\<lparr>form_files := f # others'\<rparr>) = form_ocr_engine form"
      "form_model (form\<lparr>form_files := f # others'\<rparr>) = form_model form"
      by simp_all
    show ?thesis
      unfolding convert_file_def Let_def sel files list.case len ..
  qed
  have B: "convert_file e taskId documentId vectorizerId now form d
              = (ErrorResponse 400 ''File size exceeds the 5 MB limit'', d)"
    if "MAX_FILE_SIZE_MB * (1024 * 1024) < file_size f"
    using that by (simp add: convert_file_def files Let_def)
  have C: "(\<exists>ts res. fst (convert_file e taskId documentId vectorizerId now form d)
                        = ConvertDocument ts res
                    \<and> res_pages res = 1 + length others)
          \<and> map doc_pages (filter (\<lambda>r. doc_id r = documentId) (documents d')) = [1 + length others]
          \<and> map doc_name (filter (\<lambda>r. doc_id r = documentId) (documents d')) = [file_name f]
          \<and> map doc_content (filter (\<lambda>r. doc_id r = documentId) (documents d'))
               = [if length (file_text f) \<le> CHUNK_SIZE_TOKENS then Some (file_text f) else None]
          \<and> concat (map fc_content (filter (\<lambda>c. fc_document_id c = documentId) (file_chunks d')))
               = (if length (file_text f) \<le> CHUNK_SIZE_TOKENS then [] else file_text f)"
    if size: "file_size f \<le> MAX_FILE_SIZE_MB * (1024 * 1024)"
      and fresh: "fresh_document_id d documentId" and tfresh: "fresh_task_id d taskId"
      and vfresh: "fresh_vectorizer_id d vectorizerId"
  proof -
    have r: "\<exists>ts res. fst (convert_file e taskId documentId vectorizerId now form d)
                        = ConvertDocument ts res \<and> res_pages res = 1 + length others"
      using convert_file_tasks(2) [OF files size fresh tfresh vfresh, of e now]
      by (simp add: files)
    obtain v where docs: "documents d' = documents d @
             [\<lparr>doc_id = documentId, doc_name = file_name f,
               doc_format = or_else (form_format form) ''json'',
               doc_pages = length (form_files form), doc_created_at = now,
               doc_content = (if length (file_text f) \<le> CHUNK_SIZE_TOKENS
                              then Some (file_text f) else None),
               doc_vectorizer_id = v\<rparr>]"
      using convert_file_stored(2) [OF files size fresh, of e taskId vectorizerId now]
      unfolding d' by blast
    have "filter (\<lambda>r. doc_id r = documentId) (documents d) = []"
      using fresh by (auto simp: fresh_document_id_def filter_empty_conv)
    then have flt: "filter (\<lambda>r. doc_id r = documentId) (documents d') =
             [\<lparr>doc_id = documentId, doc_name = file_name f,
               doc_format = or_else (form_format form) ''json'',
               doc_pages = length (form_files form), doc_created_at = now,
               doc_content = (if length (file_text f) \<le> CHUNK_SIZE_TOKENS
                              then Some (file_text f) else None),
               doc_vectorizer_id = v\<rparr>]"
      unfolding docs by simp
    have cc: "concat (map fc_content (filter (\<lambda>c. fc_document_id c = documentId) (file_chunks d')))
               = (if length (file_text f) \<le> CHUNK_SIZE_TOKENS then [] else file_text f)"
      unfolding d' convert_file_chunks_concat [OF files size fresh] by simp
    show ?thesis using r cc unfolding flt by (simp add: files)
  qed
  show ?thesis using A B C by blast
qed

theorem first_file_only_witness:
  "convert_file \<lparr>DEFAULT_MODEL = None\<rparr> ''t1'' ''d1'' ''v1'' 4
     (\<lparr>form_files = [\<lparr>file_name = ''a.txt'', file_size = 3, file_text = js_literal ''abc''\<rparr>,
                     \<lparr>file_name = ''b.txt'', file_size = 4, file_text = js_literal ''defg''\<rparr>],
       form_format = None, form_ocr_engine = None, form_model = None\<rparr>
      \<lparr>form_files := [\<lparr>file_name = ''a.txt'', file_size = 3, file_text = js_literal ''abc''\<rparr>,
                      \<lparr>file_name = ''huge.bin'', file_size = 99999999, file_text = js_literal ''zz''\<rparr>]\<rparr>)
     empty_db
   = convert_file \<lparr>DEFAULT_MODEL = None\<rparr> ''t1'' ''d1'' ''v1'' 4
       \<lparr>form_files = [\<lparr>file_name = ''a.txt'', file_size = 3, file_text = js_literal ''abc''\<rparr>,
                      \<lparr>file_name = ''b.txt'', file_size = 4, file_text = js_literal ''defg''\<rparr>],
        form_format = None, form_ocr_engine = None, form_model = None\<rparr> empty_db
   \<and> map doc_pages (filter (\<lambda>r. doc_id r = ''d1'')
         (documents (snd (convert_file \<lparr>DEFAULT_MODEL = None\<rparr> ''t1'' ''d1'' ''v1'' 4
            \<lparr>form_files = [\<lparr>file_name = ''a.txt'', file_size = 3, file_text = js_literal ''abc''\<rparr>,
                           \<lparr>file_name = ''b.txt'', file_size = 4, file_text = js_literal ''defg''\<rparr>],
             form_format = None, form_ocr_engine = None, form_model = None\<rparr> empty_db))))
       = [1 + length [\<lparr>file_name = ''b.txt'', file_size = 4, file_text = js_literal ''defg''\<rparr>]]"
  (is "convert_file ?e ?t ?d ?v ?now (?form\<lparr>form_files := [?f, ?huge]\<rparr>) empty_db = _ \<and> _")
proof -
  let ?b = "\<lparr>file_name = ''b.txt'', file_size = 4, file_text = js_literal ''defg''\<rparr>"
  have fresh: "fresh_document_id empty_db ?d"
    by (simp add: fresh_document_id_def empty_db_def)
  have tfresh: "fresh_task_id empty_db ?t"
    by (simp add: fresh_task_id_def empty_db_def)
  have vfresh: "fresh_vectorizer_id empty_db ?v"
    by (simp add: fresh_vectorizer_id_def empty_db_def)
  have size: "file_size ?f \<le> MAX_FILE_SIZE_MB * (1024 * 1024)"
    by (simp add: MAX_FILE_SIZE_MB_def)
  have files: "form_files ?form = ?f # [?b]" by simp
  note t = first_file_only [OF files refl, where e = ?e and taskId = ?t and documentId = ?d
      and vectorizerId = ?v and now = ?now and d = empty_db]
  have len: "length [?huge] = length [?b]" by simp
  have A: "convert_file ?e ?t ?d ?v ?now (?form\<lparr>form_files := [?f, ?huge]\<rparr>) empty_db
         = convert_file ?e ?t ?d ?v ?now ?form empty_db"
    using t [THEN conjunct1, rule_format, OF len] .
  have pre: "file_size ?f \<le> MAX_FILE_SIZE_MB * (1024 * 1024) \<and> fresh_document_id empty_db ?d
            \<and> fresh_task_id empty_db ?t \<and> fresh_vectorizer_id empty_db ?v"
    using size fresh tfresh vfresh by (intro conjI)
  note C = t [THEN conjunct2, THEN conjunct2, rule_format, OF pre]
  note C2 = C [THEN conjunct2, THEN conjunct1]
  show ?thesis using A C2 by (intro conjI)
qed

section \<open>The async flow and the progress callback\<close>

lemma get_or_create_vectorizer_cases:
  assumes "get_or_create_vectorizer d modelName ocrEngine newId now = Some (vid, d')"
  shows "(select_vectorizer_id d modelName = Some vid \<and> d' = d)
       \<or> (select_vectorizer_id d modelName = None \<and> vid = newId
           \<and> newId \<notin> set (map vec_id (vectorizers d))
           \<and> d' = d\<lparr>vectorizers := vectorizers d @
                  [\<lparr>vec_id = newId, vec_model_name = modelName, vec_engine_type = ''openai'',
                    vec_chunk_size = CHUNK_SIZE_TOKENS, vec_ocr_engine = Some ocrEngine,
                    vec_created_at = now, vec_updated_at = now,
                    vec_parameters = Some default_parameters\<rparr>]\<rparr>)"
  using assms
  by (auto simp: get_or_create_vectorizer_def insert_vectorizer_def
           split: option.splits if_splits)

text \<open>What the async flow answers and leaves behind when its identifiers are new.\<close>

lemma convert_source_async_fresh:
  assumes src: "req_sources data = Some srcs" and ne: "srcs \<noteq> []"
    and fresh: "fresh_document_id d documentId" and tfresh: "fresh_task_id d taskId"
    and vfresh: "fresh_vectorizer_id d vectorizerId"
  shows "fst (convert_source_async e taskId documentId vectorizerId now data d) =
           TaskStatus \<lparr>rsp_task_id = taskId, rsp_status = Pending,
                       rsp_message = Some ''Document conversion queued'',
                       rsp_progress = None, rsp_error = None\<rparr>"
    and "tasks (snd (convert_source_async e taskId documentId vectorizerId now data d)) =
           tasks d @
             [\<lparr>task_id = taskId, task_status = Pending, task_document_id = documentId,
               task_progress = Some 0, task_message = Some ''Document conversion queued'',
               task_error = None, task_created_at = now, task_updated_at = now\<rparr>]"
    and "\<exists>vid. documents (snd (convert_source_async e taskId documentId vectorizerId now data d)) =
           documents d @
             [\<lparr>doc_id = documentId, doc_name = ''async-document'', doc_format = ''json'',
               doc_pages = length srcs, doc_created_at = now,
               doc_content = None, doc_vectorizer_id = Some vid\<rparr>]"
    and "file_chunks (snd (convert_source_async e taskId documentId vectorizerId now data d)) =
           file_chunks d"
proof -
  let ?m = "model_name_of e (case req_options data of None \<Rightarrow> None | Some opts \<Rightarrow> opt_model opts)"
  let ?o = "or_else (case req_options data of None \<Rightarrow> None | Some opts \<Rightarrow> opt_ocr_engine opts)
              ''easyocr''"
  obtain vid d1 where goc: "get_or_create_vectorizer d ?m ?o vectorizerId now = Some (vid, d1)"
    using get_or_create_vectorizer_fresh [OF vfresh] by blast
  note t1 = get_or_create_vectorizer_tables [OF goc]
  let ?doc = "\<lparr>doc_id = documentId, doc_name = ''async-document'', doc_format = ''json'',
               doc_pages = length srcs, doc_created_at = now,
               doc_content = None, doc_vectorizer_id = Some vid\<rparr>"
  let ?task = "\<lparr>task_id = taskId, task_status = Pending, task_document_id = documentId,
               task_progress = Some 0, task_message = Some ''Document conversion queued'',
               task_error = None, task_created_at = now, task_updated_at = now\<rparr>"
  have insd: "insert_document d1 ?doc = Some (d1\<lparr>documents := documents d1 @ [?doc]\<rparr>)"
    using fresh by (simp add: insert_document_def fresh_document_id_def t1)
  have inst: "insert_task (d1\<lparr>documents := documents d1 @ [?doc]\<rparr>) ?task
      = Some (d1\<lparr>documents := documents d1 @ [?doc], tasks := tasks d1 @ [?task]\<rparr>)"
    using tfresh by (simp add: insert_task_def fresh_task_id_def t1)
  have eq: "convert_source_async e taskId documentId vectorizerId now data d =
      (TaskStatus \<lparr>rsp_task_id = taskId, rsp_status = Pending,
                       rsp_message = Some ''Document conversion queued'',
                       rsp_progress = None, rsp_error = None\<rparr>,
       insert_sources documentId now srcs
         (d1\<lparr>documents := documents d1 @ [?doc], tasks := tasks d1 @ [?task]\<rparr>))"
    using ne by (simp add: convert_source_async_def src Let_def goc insd inst)
  show "fst (convert_source_async e taskId documentId vectorizerId now data d) =
           TaskStatus \<lparr>rsp_task_id = taskId, rsp_status = Pending,
                       rsp_message = Some ''Document conversion queued'',
                       rsp_progress = None, rsp_error = None\<rparr>"
    by (simp add: eq)
  show "tasks (snd (convert_source_async e taskId documentId vectorizerId now data d)) =
           tasks d @ [?task]"
    by (simp add: eq t1)
  have "documents (snd (convert_source_async e taskId documentId vectorizerId now data d)) =
           documents d @ [?doc]"
    by (simp add: eq t1)
  then show "\<exists>vid. documents (snd (convert_source_async e taskId documentId vectorizerId now data d)) =
           documents d @
             [\<lparr>doc_id = documentId, doc_name = ''async-document'', doc_format = ''json'',
               doc_pages = length srcs, doc_created_at = now,
               doc_content = None, doc_vectorizer_id = Some vid\<rparr>]"
    by blast
  show "file_chunks (snd (convert_source_async e taskId documentId vectorizerId now data d)) =
           file_chunks d"
    by (simp add: eq t1)
qed

subsection \<open>The UPDATE of the callback\<close>

lemma find_map_same_key:
  assumes "\<And>x. key (g x) = key x"
  shows "find (\<lambda>x. key x = k) (map g xs) = map_option g (find (\<lambda>x. key x = k) xs)"
  using assms by (induction xs) simp_all

lemma update_task_row_id [simp]: "task_id (update_task_row p m er s now t) = task_id t"
  by (simp add: update_task_row_def)

lemma update_task_progress_tables [simp]:
  "documents (snd (update_task_progress d p m er s now taskId)) = documents d"
  "sources (snd (update_task_progress d p m er s now taskId)) = sources d"
  "file_chunks (snd (update_task_progress d p m er s now taskId)) = file_chunks d"
  "vectorizers (snd (update_task_progress d p m er s now taskId)) = vectorizers d"
  by (simp_all add: update_task_progress_def)

lemma update_task_progress_find:
  "find (\<lambda>t. task_id t = k) (tasks (snd (update_task_progress d p m er s now taskId))) =
     map_option (\<lambda>t. if task_id t = taskId then update_task_row p m er s now t else t)
       (find (\<lambda>t. task_id t = k) (tasks d))"
proof -
  have key: "task_id (if task_id t = taskId then update_task_row p m er s now t else t) = task_id t"
    for t by simp
  show ?thesis
    unfolding update_task_progress_def
    using find_map_same_key [of task_id
        "\<lambda>t. if task_id t = taskId then update_task_row p m er s now t else t" k "tasks d", OF key]
    by simp
qed

lemma update_task_progress_changes:
  assumes "find (\<lambda>t. task_id t = taskId) (tasks d) = Some t"
  shows "0 < fst (update_task_progress d p m er s now taskId)"
proof -
  from assms have "t \<in> set (tasks d)" and "task_id t = taskId"
    by (auto simp: find_Some_iff)
  then have "filter (\<lambda>t. task_id t = taskId) (tasks d) \<noteq> []"
    by (auto simp: filter_empty_conv)
  then show ?thesis by (simp add: update_task_progress_def)
qed

lemma bound_progress_case:
  "bound_progress x = (case x of Number p \<Rightarrow> Some p | _ \<Rightarrow> None)"
  by (cases x) simp_all

lemma progress_callback_found:
  assumes found: "find (\<lambda>t. task_id t = taskId) (tasks d) = Some t"
    and ne: "taskId \<noteq> []"
    and tid: "cb_task_id data = Some taskId"
    and p: "cb_progress data \<noteq> Omitted"
  shows "fst (progress_callback now data d) = ProgressOk taskId (bound_progress (cb_progress data))"
    and "find (\<lambda>t. task_id t = taskId) (tasks (snd (progress_callback now data d)))
              = Some (t\<lparr>task_progress := bound_progress (cb_progress data),
                       task_message :=
                         (if falsy (cb_message data) then task_message t else cb_message data),
                       task_error :=
                         (if falsy (cb_error data) then task_error t else cb_error data),
                       task_status :=
                         (case cb_status data of None \<Rightarrow> task_status t | Some s \<Rightarrow> s),
                       task_updated_at := now\<rparr>)"
    and "\<forall>k. k \<noteq> taskId \<longrightarrow>
                 find (\<lambda>t. task_id t = k) (tasks (snd (progress_callback now data d)))
                   = find (\<lambda>t. task_id t = k) (tasks d)"
    and "snd (progress_callback now data d) =
           snd (update_task_progress d (bound_progress (cb_progress data))
                  (or_null (cb_message data)) (or_null (cb_error data)) (cb_status data) now taskId)"
proof -
  let ?progress = "bound_progress (cb_progress data)"
  have id: "task_id t = taskId" using found by (auto simp: find_Some_iff)
  have row: "update_task_row ?progress (or_null (cb_message data)) (or_null (cb_error data))
               (cb_status data) now t
      = t\<lparr>task_progress := ?progress,
           task_message := (if falsy (cb_message data) then task_message t else cb_message data),
           task_error := (if falsy (cb_error data) then task_error t else cb_error data),
           task_status := (case cb_status data of None \<Rightarrow> task_status t | Some s \<Rightarrow> s),
           task_updated_at := now\<rparr>"
    by (auto simp: update_task_row_def or_null_def coalesce_def falsy_def split: option.splits)
  let ?u = "update_task_progress d ?progress (or_null (cb_message data))
              (or_null (cb_error data)) (cb_status data) now taskId"
  have ch: "0 < fst ?u" by (rule update_task_progress_changes [OF found])
  have pc: "progress_callback now data d = (ProgressOk taskId ?progress, snd ?u)"
    using ch ne p by (simp add: progress_callback_def tid case_prod_unfold Let_def)
  have f1: "find (\<lambda>t. task_id t = taskId) (tasks (snd ?u)) =
      Some (update_task_row ?progress (or_null (cb_message data)) (or_null (cb_error data))
             (cb_status data) now t)"
    by (simp add: update_task_progress_find found id)
  have f2: "find (\<lambda>t. task_id t = k) (tasks (snd ?u)) = find (\<lambda>t. task_id t = k) (tasks d)"
    if "k \<noteq> taskId" for k
  proof (cases "find (\<lambda>t. task_id t = k) (tasks d)")
    case None
    then show ?thesis by (simp add: update_task_progress_find)
  next
    case (Some u)
    then have "task_id u = k" by (auto simp: find_Some_iff)
    then show ?thesis using that Some by (simp add: update_task_progress_find)
  qed
  show "fst (progress_callback now data d) = ProgressOk taskId ?progress" by (simp add: pc)
  show "find (\<lambda>t. task_id t = taskId) (tasks (snd (progress_callback now data d)))
              = Some (t\<lparr>task_progress := ?progress,
                       task_message :=
                         (if falsy (cb_message data) then task_message t else cb_message data),
                       task_error :=
                         (if falsy (cb_error data) then task_error t else cb_error data),
                       task_status :=
                         (case cb_status data of None \<Rightarrow> task_status t | Some s \<Rightarrow> s),
                       task_updated_at := now\<rparr>)"
    unfolding pc using f1 by (simp add: row)
  show "\<forall>k. k \<noteq> taskId \<longrightarrow>
                 find (\<lambda>t. task_id t = k) (tasks (snd (progress_callback now data d)))
                   = find (\<lambda>t. task_id t = k) (tasks d)"
    unfolding pc using f2 by simp
  show "snd (progress_callback now data d) = snd ?u" by (simp add: pc)
qed

text \<open>
  Claim C3, as the code has it. The handler rejects a callback only when its progress
  is absent (\<open>undefined\<close>): that one is answered 400 "Invalid progress data" and changes
  nothing. Every other callback for an existing task assigns the stored progress: to the
  number it carries, or to NULL when it carries \<open>null\<close>; \<open>message\<close>, \<open>error\<close> and \<open>status\<close>
  keep their stored values when the callback omits them (or gives an empty string) and
  take the new value otherwise; \<open>updated_at\<close> is refreshed; every other task is as before.
  So a task created pending, updated with progress 50 and then with progress 50 and
  status completed ends as progress 50, status completed, message and error unchanged.
\<close>

theorem progress_update_coalesce:
  assumes found: "find (\<lambda>t. task_id t = taskId) (tasks d) = Some t"
    and ne: "taskId \<noteq> []"
    and tid: "cb_task_id data = Some taskId"
  shows "(cb_progress data \<noteq> Omitted \<longrightarrow>
            fst (progress_callback now data d)
              = ProgressOk taskId (case cb_progress data of Number p \<Rightarrow> Some p | _ \<Rightarrow> None)
          \<and> find (\<lambda>t. task_id t = taskId) (tasks (snd (progress_callback now data d)))
              = Some (t\<lparr>task_progress :=
                         (case cb_progress data of Number p \<Rightarrow> Some p | _ \<Rightarrow> None),
                       task_message :=
                         (if falsy (cb_message data) then task_message t else cb_message data),
                       task_error :=
                         (if falsy (cb_error data) then task_error t else cb_error data),
                       task_status :=
                         (case cb_status data of None \<Rightarrow> task_status t | Some s \<Rightarrow> s),
                       task_updated_at := now\<rparr>)
          \<and> (\<forall>k. k \<noteq> taskId \<longrightarrow>
                 find (\<lambda>t. task_id t = k) (tasks (snd (progress_callback now data d)))
                   = find (\<lambda>t. task_id t = k) (tasks d)))
       \<and> (cb_progress data = Omitted \<longrightarrow>
            progress_callback now data d = (ErrorResponse 400 ''Invalid progress data'', d))"
proof -
  have B: "progress_callback now data d = (ErrorResponse 400 ''Invalid progress data'', d)"
    if "cb_progress data = Omitted"
    using that by (simp add: progress_callback_def)
  note A = progress_callback_found(1,2,3) [OF found ne tid, of now,
      unfolded bound_progress_case]
  show ?thesis using A B by blast
qed

lemmas eval_defs = convert_source_async_def model_name_of_def or_else_def
  get_or_create_vectorizer_def select_vectorizer_id_def insert_vectorizer_def
  insert_document_def insert_task_def insert_source_def empty_db_def Let_def
  progress_callback_def update_task_progress_def update_task_row_def or_null_def coalesce_def

theorem progress_update_coalesce_witness:
  "find (\<lambda>t. task_id t = ''t1'')
     (tasks (snd (progress_callback 9
        \<lparr>cb_task_id = Some ''t1'', cb_progress = Number 50, cb_message = None,
         cb_error = None, cb_status = Some Completed\<rparr>
        (snd (progress_callback 8
           \<lparr>cb_task_id = Some ''t1'', cb_progress = Number 50, cb_message = None,
            cb_error = None, cb_status = None\<rparr>
           (snd (convert_source_async \<lparr>DEFAULT_MODEL = None\<rparr> ''t1'' ''d1'' ''v1'' 3
              \<lparr>req_sources = Some [SourceUrl ''https://a/b.pdf''], req_options = None\<rparr>
              empty_db)))))))
   = Some \<lparr>task_id = ''t1'', task_status = Completed, task_document_id = ''d1'',
           task_progress = Some 50, task_message = Some ''Document conversion queued'',
           task_error = None, task_created_at = 3, task_updated_at = 9\<rparr>"
  (is "find _ (tasks (snd (progress_callback 9 ?data ?D1))) = _")
proof -
  have f: "find (\<lambda>t. task_id t = ''t1'') (tasks ?D1)
      = Some \<lparr>task_id = ''t1'', task_status = Pending, task_document_id = ''d1'',
           task_progress = Some 50, task_message = Some ''Document conversion queued'',
           task_error = None, task_created_at = 3, task_updated_at = 8\<rparr>"
    by (simp add: eval_defs)
  have ne: "''t1'' \<noteq> []" by simp
  have tid: "cb_task_id ?data = Some ''t1''" by simp
  have p: "cb_progress ?data \<noteq> Omitted" by simp
  from progress_update_coalesce [OF f ne tid, of 9, THEN conjunct1, rule_format, OF p,
      THEN conjunct2, THEN conjunct1]
  show ?thesis by simp
qed

text \<open>
  The claim as stated fails: the callback that carries only \<open>status = completed\<close> is
  rejected, and the task stays pending with progress 50.
\<close>

theorem progress_update_coalesce_counterexample:
  "progress_callback 9
     \<lparr>cb_task_id = Some ''t1'', cb_progress = Omitted, cb_message = None,
      cb_error = None, cb_status = Some Completed\<rparr>
     (snd (progress_callback 8
        \<lparr>cb_task_id = Some ''t1'', cb_progress = Number 50, cb_message = None,
         cb_error = None, cb_status = None\<rparr>
        (snd (convert_source_async \<lparr>DEFAULT_MODEL = None\<rparr> ''t1'' ''d1'' ''v1'' 3
           \<lparr>req_sources = Some [SourceUrl ''https://a/b.pdf''], req_options = None\<rparr>
           empty_db))))
   = (ErrorResponse 400 ''Invalid progress data'',
      \<lparr>documents =
         [\<lparr>doc_id = ''d1'', doc_name = ''async-document'', doc_format = ''json'',
           doc_pages = 1, doc_created_at = 3, doc_content = None,
           doc_vectorizer_id = Some ''v1''\<rparr>],
       tasks =
         [\<lparr>task_id = ''t1'', task_status = Pending, task_document_id = ''d1'',
           task_progress = Some 50, task_message = Some ''Document conversion queued'',
           task_error = None, task_created_at = 3, task_updated_at = 8\<rparr>],
       sources = [\<lparr>src_document_id = ''d1'', src_url = ''https://a/b.pdf'', src_created_at = 3\<rparr>],
       file_chunks = [],
       vectorizers =
         [\<lparr>vec_id = ''v1'', vec_model_name = ''gpt-4o-mini'', vec_engine_type = ''openai'',
           vec_chunk_size = CHUNK_SIZE_TOKENS, vec_ocr_engine = Some ''easyocr'',
           vec_created_at = 3, vec_updated_at = 3,
           vec_parameters = Some default_parameters\<rparr>]\<rparr>)"
  by (simp add: eval_defs)

text \<open>
  A callback that carries \<open>null\<close> as progress passes the guard: the stored progress
  becomes NULL and the status is set.
\<close>

lemma progress_callback_null:
  "map (\<lambda>t. (task_progress t, task_status t))
     (tasks (snd (progress_callback 9
        \<lparr>cb_task_id = Some ''t1'', cb_progress = Null, cb_message = None,
         cb_error = None, cb_status = Some Completed\<rparr>
        (snd (convert_source_async \<lparr>DEFAULT_MODEL = None\<rparr> ''t1'' ''d1'' ''v1'' 3
           \<lparr>req_sources = Some [SourceUrl ''https://a/b.pdf''], req_options = None\<rparr>
           empty_db)))))
   = [(None, Completed)]"
  by (simp add: eval_defs)

lemma filter_fresh_snoc:
  assumes "\<forall>x \<in> set xs. \<not> P x" and "P y"
  shows "filter P (xs @ [y]) = [y]"
proof -
  have "filter P xs = []" using assms(1) by (auto simp: filter_empty_conv)
  then show ?thesis using assms(2) by simp
qed

text \<open>
  Claim C7, as the code has it. A URL-async ingestion with at least one source and new
  identifiers answers with status pending and creates its task pending; a callback with
  progress 100 and status completed then makes the task completed; the result endpoint
  then answers with status completed, progress 100, the document identifier, the number
  of sources as pages and format json, and with no content: the endpoint reads content
  from the document row or its chunks, and the async flow writes neither.
\<close>

theorem async_scenario:
  assumes src: "req_sources data = Some srcs" and ne: "srcs \<noteq> []"
    and fresh: "fresh_document_id d documentId" and tfresh: "fresh_task_id d taskId"
    and vfresh: "fresh_vectorizer_id d vectorizerId"
    and cb: "callback = \<lparr>cb_task_id = Some taskId, cb_progress = Number 100, cb_message = None,
                          cb_error = None, cb_status = Some Completed\<rparr>"
    and d1: "d1 = snd (convert_source_async e taskId documentId vectorizerId now data d)"
    and d2: "d2 = snd (progress_callback now' callback d1)"
  shows "fst (convert_source_async e taskId documentId vectorizerId now data d) =
           TaskStatus \<lparr>rsp_task_id = taskId, rsp_status = Pending,
                       rsp_message = Some ''Document conversion queued'',
                       rsp_progress = None, rsp_error = None\<rparr>
       \<and> map task_status (filter (\<lambda>t. task_id t = taskId) (tasks d1)) = [Pending]
       \<and> fst (progress_callback now' callback d1) = ProgressOk taskId (Some 100)
       \<and> map task_status (filter (\<lambda>t. task_id t = taskId) (tasks d2)) = [Completed]
       \<and> get_result taskId d2 =
           ConvertDocument
             \<lparr>rsp_task_id = taskId, rsp_status = Completed,
              rsp_message = Some ''Document conversion queued'',
              rsp_progress = Some 100, rsp_error = None\<rparr>
             \<lparr>res_document_id = documentId, res_pages = length srcs,
              res_format = ''json'', res_content = None\<rparr>"
proof -
  let ?task = "\<lparr>task_id = taskId, task_status = Pending, task_document_id = documentId,
               task_progress = Some 0, task_message = Some ''Document conversion queued'',
               task_error = None, task_created_at = now, task_updated_at = now\<rparr>"
  let ?done = "\<lparr>task_id = taskId, task_status = Completed, task_document_id = documentId,
               task_progress = Some 100, task_message = Some ''Document conversion queued'',
               task_error = None, task_created_at = now, task_updated_at = now'\<rparr>"
  note a = convert_source_async_fresh [OF src ne fresh tfresh vfresh, of e now, folded d1]
  have nt: "\<forall>t \<in> set (tasks d). \<not> task_id t = taskId" and tne: "taskId \<noteq> []"
    using tfresh by (auto simp: fresh_task_id_def)
  have nd: "\<forall>r \<in> set (documents d). \<not> doc_id r = documentId" and dne: "documentId \<noteq> []"
    and nc: "documentId \<notin> set (map fc_document_id (file_chunks d))"
    using fresh by (auto simp: fresh_document_id_def)
  have t1: "tasks d1 = tasks d @ [?task]" by (rule a(2))
  obtain vid where docs1: "documents d1 = documents d @
             [\<lparr>doc_id = documentId, doc_name = ''async-document'', doc_format = ''json'',
               doc_pages = length srcs, doc_created_at = now,
               doc_content = None, doc_vectorizer_id = Some vid\<rparr>]" (is "_ = _ @ [?doc]")
    using a(3) by blast
  have c1: "file_chunks d1 = file_chunks d" by (rule a(4))
  have f1: "find (\<lambda>t. task_id t = taskId) (tasks d1) = Some ?task"
    unfolding t1 using nt by (intro find_fresh_snoc) simp_all
  have s1: "filter (\<lambda>t. task_id t = taskId) (tasks d1) = [?task]"
    unfolding t1 using nt by (intro filter_fresh_snoc) simp_all
  have tid: "cb_task_id callback = Some taskId" and p: "cb_progress callback \<noteq> Omitted"
    and bp: "bound_progress (cb_progress callback) = Some 100"
    by (simp_all add: cb)
  note u = progress_callback_found [OF f1 tne tid p, of now', folded d2]
  have r2: "fst (progress_callback now' callback d1) = ProgressOk taskId (Some 100)"
    using u(1) by (simp add: bp)
  have f2: "find (\<lambda>t. task_id t = taskId) (tasks d2) = Some ?done"
    using u(2) by (simp add: cb)
  have d2eq: "d2 = snd (update_task_progress d1 (Some 100) None None (Some Completed) now' taskId)"
    using tne by (simp add: d2 progress_callback_def cb or_null_def case_prod_unfold Let_def)
  have t2: "tasks d2 = tasks d @ [?done]"
  proof -
    have "map (\<lambda>t. if task_id t = taskId
                    then update_task_row (Some 100) None None (Some Completed) now' t else t) (tasks d)
          = tasks d"
      using nt by (intro map_idI) auto
    then show ?thesis
      by (simp add: d2eq update_task_progress_def t1 update_task_row_def coalesce_def)
  qed
  have s2: "filter (\<lambda>t. task_id t = taskId) (tasks d2) = [?done]"
    unfolding t2 using nt by (intro filter_fresh_snoc) simp_all
  have docs2: "documents d2 = documents d @ [?doc]" and c2: "file_chunks d2 = file_chunks d"
    by (simp_all add: d2eq docs1 c1)
  have fd: "find (\<lambda>r. doc_id r = documentId) (documents d2) = Some ?doc"
    unfolding docs2 using nd by (intro find_fresh_snoc) simp_all
  have sel: "select_task_document d2 taskId = Some (?done, ?doc)"
    by (simp add: select_task_document_def f2 fd)
  have ch: "select_chunks d2 documentId = []"
    using nc by (intro select_chunks_none) (simp add: c2)
  have res: "get_result taskId d2 =
           ConvertDocument
             \<lparr>rsp_task_id = taskId, rsp_status = Completed,
              rsp_message = Some ''Document conversion queued'',
              rsp_progress = Some 100, rsp_error = None\<rparr>
             \<lparr>res_document_id = documentId, res_pages = length srcs,
              res_format = ''json'', res_content = None\<rparr>"
    using tne dne by (simp add: get_result_def sel ch Let_def)
  show ?thesis using a(1) r2 res by (simp add: s1 s2)
qed

theorem async_scenario_witness:
  "get_result ''t1''
     (snd (progress_callback 9
        \<lparr>cb_task_id = Some ''t1'', cb_progress = Number 100, cb_message = None,
         cb_error = None, cb_status = Some Completed\<rparr>
        (snd (convert_source_async \<lparr>DEFAULT_MODEL = None\<rparr> ''t1'' ''d1'' ''v1'' 3
           \<lparr>req_sources = Some [SourceUrl ''https://a/b.pdf''], req_options = None\<rparr>
           empty_db)))) =
   ConvertDocument
     \<lparr>rsp_task_id = ''t1'', rsp_status = Completed,
      rsp_message = Some ''Document conversion queued'',
      rsp_progress = Some 100, rsp_error = None\<rparr>
     \<lparr>res_document_id = ''d1'', res_pages = length [SourceUrl ''https://a/b.pdf''],
      res_format = ''json'', res_content = None\<rparr>"
proof -
  have fresh: "fresh_document_id empty_db ''d1''"
    by (simp add: fresh_document_id_def empty_db_def)
  have tfresh: "fresh_task_id empty_db ''t1''"
    by (simp add: fresh_task_id_def empty_db_def)
  have vfresh: "fresh_vectorizer_id empty_db ''v1''"
    by (simp add: fresh_vectorizer_id_def empty_db_def)
  have src: "req_sources \<lparr>req_sources = Some [SourceUrl ''https://a/b.pdf''], req_options = None\<rparr>
      = Some [SourceUrl ''https://a/b.pdf'']" by simp
  have ne: "[SourceUrl ''https://a/b.pdf''] \<noteq> []" by simp
  note t = async_scenario [OF src ne fresh tfresh vfresh refl refl refl,
      of "\<lparr>DEFAULT_MODEL = None\<rparr>" 3 9]
  show ?thesis using t by (elim conjE)
qed

text \<open>
  The claim as stated fails: nothing in the async flow or in the callback writes content,
  so the result of a completed async task carries no content field.
\<close>

theorem async_scenario_counterexample:
  "get_result ''t2''
     (snd (progress_callback 12
        \<lparr>cb_task_id = Some ''t2'', cb_progress = Number 100, cb_message = None,
         cb_error = None, cb_status = Some Completed\<rparr>
        (snd (convert_source_async \<lparr>DEFAULT_MODEL = Some ''m''\<rparr> ''t2'' ''d2'' ''v2'' 11
           \<lparr>req_sources = Some [SourceUrl ''https://a/b.pdf'', SourceUrl ''https://a/c.pdf''],
            req_options = None\<rparr>
           empty_db)))) =
   ConvertDocument
     \<lparr>rsp_task_id = ''t2'', rsp_status = Completed,
      rsp_message = Some ''Document conversion queued'',
      rsp_progress = Some 100, rsp_error = None\<rparr>
     \<lparr>res_document_id = ''d2'', res_pages = 2, res_format = ''json'', res_content = None\<rparr>"
  by (simp add: eval_defs get_result_def select_task_document_def select_chunks_def)

lemma chunk_loop_tasks [simp]:
  "tasks (snd (chunk_loop documentId s n now i d)) = tasks d"
proof (induction documentId s n now i d rule: chunk_loop.induct)
  case (1 documentId s n now i d)
  show ?case
    apply (subst chunk_loop.simps)
    using 1 apply (auto simp: Let_def insert_file_chunk_def split: option.splits if_splits)
    done
qed

lemma in_range_snoc:
  assumes "in_range d" and "tasks d' = tasks d \<or> (\<exists>t. tasks d' = tasks d @ [t] \<and> task_progress t = Some 0)"
  shows "in_range d'"
  using assms by (auto simp: in_range_def)

lemma convert_source_new_task:
  "tasks (snd (convert_source taskId documentId now data d)) = tasks d
   \<or> (\<exists>t. tasks (snd (convert_source taskId documentId now data d)) = tasks d @ [t]
          \<and> task_progress t = Some 0)"
  by (auto simp: convert_source_def insert_document_def insert_task_def
           split: option.splits if_splits)

lemma convert_source_async_new_task:
  "tasks (snd (convert_source_async e taskId documentId vectorizerId now data d)) = tasks d
   \<or> (\<exists>t. tasks (snd (convert_source_async e taskId documentId vectorizerId now data d))
            = tasks d @ [t] \<and> task_progress t = Some 0)"
  by (auto simp: convert_source_async_def insert_document_def insert_task_def Let_def
           get_or_create_vectorizer_def insert_vectorizer_def
           split: option.splits if_splits)

lemma convert_file_new_task:
  "tasks (snd (convert_file e taskId documentId vectorizerId now form d)) = tasks d
   \<or> (\<exists>t. tasks (snd (convert_file e taskId documentId vectorizerId now form d))
            = tasks d @ [t] \<and> task_progress t = Some 0)"
proof (cases "form_files form")
  case Nil
  then show ?thesis by (simp add: convert_file_def)
next
  case (Cons f others)
  show ?thesis
  proof (cases "file_size f > MAX_FILE_SIZE_MB * (1024 * 1024)")
    case True
    then show ?thesis by (simp add: convert_file_def Cons)
  next
    case False
    let ?row = "\<lparr>doc_id = documentId, doc_name = file_name f,
                  doc_format = or_else (form_format form) ''json'',
                  doc_pages = length (form_files form), doc_created_at = now,
                  doc_content = (if length (file_text f) \<le> CHUNK_SIZE_TOKENS
                                 then Some (file_text f) else None),
                  doc_vectorizer_id = None\<rparr>"
    show ?thesis
    proof (cases "insert_document d ?row")
      case None
      then show ?thesis using False by (simp add: convert_file_def Cons Let_def)
    next
      case (Some d1)
      then have t1: "tasks d1 = tasks d" by (auto simp: insert_document_def split: if_splits)
      obtain ok d2 where loop: "(if length (file_text f) > CHUNK_SIZE_TOKENS
                           then chunk_loop documentId (file_text f)
                                  (ceil_div (length (file_text f)) CHUNK_SIZE_TOKENS) now 0 d1
                           else (True, d1)) = (ok, d2)"
        by (cases "(if length (file_text f) > CHUNK_SIZE_TOKENS
                           then chunk_loop documentId (file_text f)
                                  (ceil_div (length (file_text f)) CHUNK_SIZE_TOKENS) now 0 d1
                           else (True, d1))")
      have "tasks d2 = tasks (snd (if length (file_text f) > CHUNK_SIZE_TOKENS
                           then chunk_loop documentId (file_text f)
                                  (ceil_div (length (file_text f)) CHUNK_SIZE_TOKENS) now 0 d1
                           else (True, d1)))"
        by (simp only: loop snd_conv)
      also have "\<dots> = tasks d1" by simp
      finally have t2: "tasks d2 = tasks d" using t1 by simp
      let ?task = "\<lparr>task_id = taskId, task_status = Completed,
                     task_document_id = documentId, task_progress = Some 0,
                     task_message = Some ''Files processed successfully'',
                     task_error = None, task_created_at = now, task_updated_at = now\<rparr>"
      have red: "convert_file e taskId documentId vectorizerId now form d =
        (case (ok, d2) of
           (False, d2) \<Rightarrow> (ErrorResponse 500 ''Failed to process files'', d2)
         | (True, d2) \<Rightarrow>
             (case insert_task d2 ?task of
                None \<Rightarrow> (ErrorResponse 500 ''Failed to process files'', d2)
              | Some d3 \<Rightarrow>
                  (case get_or_create_vectorizer d3 (model_name_of e (form_model form))
                          (or_else (form_ocr_engine form) ''easyocr'') vectorizerId now of
                     None \<Rightarrow> (ErrorResponse 500 ''Failed to process files'', d3)
                   | Some (vid, d4) \<Rightarrow>
                       (ConvertDocument
                          \<lparr>rsp_task_id = taskId, rsp_status = Completed,
                           rsp_message = Some ''Files processed successfully'',
                           rsp_progress = None, rsp_error = None\<rparr>
                          \<lparr>res_document_id = documentId, res_pages = length (form_files form),
                           res_format = or_else (form_format form) ''json'', res_content = None\<rparr>,
                        update_document_vectorizer d4 vid documentId))))"
        unfolding convert_file_def Let_def Cons list.case
        using False Some loop
        by (simp only: Cons [symmetric] if_False option.case)
      show ?thesis
      proof (cases ok)
        case False
        then show ?thesis by (simp add: red t2)
      next
        case True
        show ?thesis
        proof (cases "insert_task d2 ?task")
          case None
          then show ?thesis using True by (simp add: red t2)
        next
          case (Some d3)
          note t3 = insert_task_tables [OF Some]
          show ?thesis
          proof (cases "get_or_create_vectorizer d3 (model_name_of e (form_model form))
                          (or_else (form_ocr_engine form) ''easyocr'') vectorizerId now")
            case None
            then show ?thesis using True Some by (simp add: red t3 t2)
          next
            case (Some p)
            obtain vid d4 where p: "p = (vid, d4)" by (cases p)
            note t4 = get_or_create_vectorizer_tables [OF Some [unfolded p]]
            show ?thesis using True \<open>insert_task d2 ?task = Some d3\<close> Some p
              by (simp add: red t4 t3 t2)
          qed
        qed
      qed
    qed
  qed
qed

lemma ensureDefaultVectorizer_tasks [simp]:
  "tasks (snd (ensureDefaultVectorizer e vectorizerId now d)) = tasks d"
  by (auto simp: ensureDefaultVectorizer_def insert_vectorizer_def Let_def split: option.splits)

lemma progress_callback_in_range:
  assumes "in_range d"
    and "case cb_progress data of Number p \<Rightarrow> 0 \<le> p \<and> p \<le> 100 | Null \<Rightarrow> False
           | Omitted \<Rightarrow> True"
  shows "in_range (snd (progress_callback now data d))"
proof (cases "cb_progress data")
  case Omitted
  then show ?thesis using assms(1) by (simp add: progress_callback_def)
next
  case Null
  then show ?thesis using assms(2) by simp
next
  case (Number p)
  then have "0 \<le> p \<and> p \<le> 100" using assms(2) by simp
  then show ?thesis
    using assms(1) Number
    by (auto simp: progress_callback_def in_range_def update_task_progress_def
          update_task_row_def Let_def)
qed

lemma handle_in_range:
  assumes "in_range d"
    and "case carried_progress r of Number p \<Rightarrow> 0 \<le> p \<and> p \<le> 100 | Null \<Rightarrow> False
           | Omitted \<Rightarrow> True"
  shows "in_range (handle e r d)"
proof (cases r)
  case (ConvertSource taskId documentId now data)
  show ?thesis unfolding ConvertSource handle.simps
    by (rule in_range_snoc [OF assms(1) convert_source_new_task])
next
  case (ConvertFile taskId documentId vectorizerId now form)
  show ?thesis unfolding ConvertFile handle.simps
    by (rule in_range_snoc [OF assms(1) convert_file_new_task])
next
  case (ConvertSourceAsync taskId documentId vectorizerId now data)
  show ?thesis unfolding ConvertSourceAsync handle.simps
    by (rule in_range_snoc [OF assms(1) convert_source_async_new_task])
next
  case (ProgressCallback now data)
  show ?thesis unfolding ProgressCallback handle.simps
    using assms by (intro progress_callback_in_range) (simp_all add: ProgressCallback)
next
  case (EnsureDefaultVectorizer vectorizerId now)
  show ?thesis using assms(1) unfolding EnsureDefaultVectorizer handle.simps
    by (simp add: in_range_def)
qed

lemma run_in_range:
  assumes "in_range d"
    and "\<forall>r \<in> set history.
           (case carried_progress r of Number p \<Rightarrow> 0 \<le> p \<and> p \<le> 100 | Null \<Rightarrow> False
            | Omitted \<Rightarrow> True)"
  shows "in_range (run e history d)"
  using assms
proof (induction history arbitrary: d)
  case Nil
  then show ?case by simp
next
  case (Cons r rs)
  have "in_range (handle e r d)" using Cons.prems by (intro handle_in_range) simp_all
  then show ?case using Cons.prems by (simp add: Cons.IH)
qed

text \<open>
  Claim C8, as the code has it. A task is created with progress 0 and a callback that
  passes the guard stores the progress it carries, a number of any size or NULL for
  \<open>null\<close>, without a range check; so in every database reached by the requests of a
  history, every task has a progress between 0 and 100 provided every callback of the
  history that carries a progress carries a number between 0 and 100.
\<close>

theorem progress_range:
  assumes "\<forall>r \<in> set history.
             (case carried_progress r of Number p \<Rightarrow> 0 \<le> p \<and> p \<le> 100 | Null \<Rightarrow> False
              | Omitted \<Rightarrow> True)"
  shows "\<forall>t \<in> set (tasks (run e history empty_db)).
           \<exists>p. task_progress t = Some p \<and> 0 \<le> p \<and> p \<le> 100"
proof -
  have "in_range empty_db" by (simp add: in_range_def empty_db_def)
  from run_in_range [OF this assms, of e] show ?thesis by (simp add: in_range_def)
qed

theorem progress_range_witness:
  "\<exists>p. task_progress (last (tasks (run \<lparr>DEFAULT_MODEL = None\<rparr>
       [ConvertSourceAsync ''t1'' ''d1'' ''v1'' 3
          \<lparr>req_sources = Some [SourceUrl ''https://a/b.pdf''], req_options = None\<rparr>,
        ProgressCallback 8
          \<lparr>cb_task_id = Some ''t1'', cb_progress = Number 100, cb_message = None,
           cb_error = None, cb_status = Some Completed\<rparr>]
       empty_db))) = Some p \<and> 0 \<le> p \<and> p \<le> 100"
  (is "\<exists>p. task_progress (last (tasks (run ?e ?history empty_db))) = Some p \<and> _")
proof -
  have hyp: "\<forall>r \<in> set ?history.
             (case carried_progress r of Number p \<Rightarrow> 0 \<le> p \<and> p \<le> 100 | Null \<Rightarrow> False
              | Omitted \<Rightarrow> True)"
    by simp
  have "tasks (run ?e ?history empty_db) \<noteq> []"
    by (simp add: eval_defs)
  then have mem: "last (tasks (run ?e ?history empty_db)) \<in> set (tasks (run ?e ?history empty_db))"
    by (rule last_in_set)
  show ?thesis
    using progress_range [OF hyp, of ?e] mem by blast
qed

text \<open>
  The claim as stated fails: the callback stores the progress it is given, whatever it is.
\<close>

theorem progress_range_counterexample:
  "map task_progress (tasks (run \<lparr>DEFAULT_MODEL = None\<rparr>
       [ConvertSourceAsync ''t1'' ''d1'' ''v1'' 3
          \<lparr>req_sources = Some [SourceUrl ''https://a/b.pdf''], req_options = None\<rparr>,
        ProgressCallback 8
          \<lparr>cb_task_id = Some ''t1'', cb_progress = Number 150, cb_message = None,
           cb_error = None, cb_status = None\<rparr>]
       empty_db))
   = [Some 150]"
  by (simp add: eval_defs)

section \<open>Vectorizer lookup-or-insert, one request after another\<close>

lemma chunk_loop_documents [simp]:
  "documents (snd (chunk_loop documentId s n now i d)) = documents d"
proof (induction documentId s n now i d rule: chunk_loop.induct)
  case (1 documentId s n now i d)
  show ?case
    apply (subst chunk_loop.simps)
    using 1 apply (auto simp: Let_def insert_file_chunk_def split: option.splits if_splits)
    done
qed

lemma chunk_loop_vectorizers [simp]:
  "vectorizers (snd (chunk_loop documentId s n now i d)) = vectorizers d"
proof (induction documentId s n now i d rule: chunk_loop.induct)
  case (1 documentId s n now i d)
  show ?case
    apply (subst chunk_loop.simps)
    using 1 apply (auto simp: Let_def insert_file_chunk_def split: option.splits if_splits)
    done
qed

lemma distinct_find_filter:
  assumes "distinct (map key xs)" and "find (\<lambda>x. key x = k) xs = Some w"
  shows "filter (\<lambda>x. key x = k) xs = [w]"
  using assms
proof (induction xs)
  case Nil
  then show ?case by simp
next
  case (Cons x xs)
  show ?case
  proof (cases "key x = k")
    case True
    then have w: "w = x" using Cons.prems(2) by simp
    have "key x \<notin> key ` set xs" using Cons.prems(1) by simp
    then have "\<forall>y \<in> set xs. key y \<noteq> k" unfolding True [symmetric] by (metis imageI)
    then have "filter (\<lambda>x. key x = k) xs = []" by (auto simp: filter_empty_conv)
    then show ?thesis using True w by simp
  next
    case False
    then show ?thesis using Cons by simp
  qed
qed

text \<open>The lookup-or-insert on a table with at most one row per model name.\<close>

lemma get_or_create_vectorizer_unique:
  assumes goc: "get_or_create_vectorizer d X ocrEngine newId now = Some (vid, d')"
    and dist: "distinct (map vec_model_name (vectorizers d))"
  shows "\<exists>v. vectorizers_named d' X = [v] \<and> vec_id v = vid"
    and "vectorizers_named d X \<noteq> [] \<Longrightarrow> vectorizers d' = vectorizers d"
    and "distinct (map vec_model_name (vectorizers d'))"
proof -
  have "(\<exists>v. vectorizers_named d' X = [v] \<and> vec_id v = vid)
      \<and> (vectorizers_named d X \<noteq> [] \<longrightarrow> vectorizers d' = vectorizers d)
      \<and> distinct (map vec_model_name (vectorizers d'))"
    using get_or_create_vectorizer_cases [OF goc]
  proof (elim disjE conjE)
    assume found: "select_vectorizer_id d X = Some vid" "d' = d"
    then obtain w where w: "find (\<lambda>v. vec_model_name v = X) (vectorizers d) = Some w"
      and id: "vec_id w = vid"
      by (auto simp: select_vectorizer_id_def)
    from distinct_find_filter [OF dist w] have "vectorizers_named d X = [w]"
      by (simp add: vectorizers_named_def)
    then show ?thesis using found id dist by simp
  next
    assume new: "select_vectorizer_id d X = None" "vid = newId"
      "d' = d\<lparr>vectorizers := vectorizers d @
                  [\<lparr>vec_id = newId, vec_model_name = X, vec_engine_type = ''openai'',
                    vec_chunk_size = CHUNK_SIZE_TOKENS, vec_ocr_engine = Some ocrEngine,
                    vec_created_at = now, vec_updated_at = now,
                    vec_parameters = Some default_parameters\<rparr>]\<rparr>"
    then have none: "find (\<lambda>v. vec_model_name v = X) (vectorizers d) = None"
      by (simp add: select_vectorizer_id_def)
    then have no: "\<forall>v \<in> set (vectorizers d). vec_model_name v \<noteq> X"
      by (simp add: find_None_iff)
    then have e: "vectorizers_named d X = []"
      by (auto simp: vectorizers_named_def filter_empty_conv)
    have "X \<notin> set (map vec_model_name (vectorizers d))" using no by auto
    then show ?thesis using new e dist by (simp add: vectorizers_named_def)
  qed
  then show "\<exists>v. vectorizers_named d' X = [v] \<and> vec_id v = vid"
    and "vectorizers_named d X \<noteq> [] \<Longrightarrow> vectorizers d' = vectorizers d"
    and "distinct (map vec_model_name (vectorizers d'))"
    by blast+
qed

text \<open>The file flow after its document is inserted and its chunk loop has run.\<close>

lemma convert_file_steps:
  assumes files: "form_files form = f # others"
    and size: "\<not> file_size f > MAX_FILE_SIZE_MB * (1024 * 1024)"
    and ins: "insert_document d
                \<lparr>doc_id = documentId, doc_name = file_name f,
                 doc_format = or_else (form_format form) ''json'',
                 doc_pages = length (form_files form), doc_created_at = now,
                 doc_content = (if length (file_text f) \<le> CHUNK_SIZE_TOKENS
                                then Some (file_text f) else None),
                 doc_vectorizer_id = None\<rparr> = Some d1"
    and loop: "(if length (file_text f) > CHUNK_SIZE_TOKENS
                then chunk_loop documentId (file_text f)
                       (ceil_div (length (file_text f)) CHUNK_SIZE_TOKENS) now 0 d1
                else (True, d1)) = (ok, d2)"
  shows "convert_file e taskId documentId vectorizerId now form d =
        (case (ok, d2) of
           (False, d2) \<Rightarrow> (ErrorResponse 500 ''Failed to process files'', d2)
         | (True, d2) \<Rightarrow>
             (case insert_task d2
                     \<lparr>task_id = taskId, task_status = Completed,
                      task_document_id = documentId, task_progress = Some 0,
                      task_message = Some ''Files processed successfully'',
                      task_error = None, task_created_at = now, task_updated_at = now\<rparr> of
                None \<Rightarrow> (ErrorResponse 500 ''Failed to process files'', d2)
              | Some d3 \<Rightarrow>
                  (case get_or_create_vectorizer d3 (model_name_of e (form_model form))
                          (or_else (form_ocr_engine form) ''easyocr'') vectorizerId now of
                     None \<Rightarrow> (ErrorResponse 500 ''Failed to process files'', d3)
                   | Some (vid, d4) \<Rightarrow>
                       (ConvertDocument
                          \<lparr>rsp_task_id = taskId, rsp_status = Completed,
                           rsp_message = Some ''Files processed successfully'',
                           rsp_progress = None, rsp_error = None\<rparr>
                          \<lparr>res_document_id = documentId, res_pages = length (form_files form),
                           res_format = or_else (form_format form) ''json'', res_content = None\<rparr>,
                        update_document_vectorizer d4 vid documentId))))"
  unfolding convert_file_def Let_def files list.case
  using size ins loop
  by (simp only: files [symmetric] if_False option.case)

text \<open>When the file flow answers with success: the steps it has taken.\<close>

lemma convert_file_completes:
  assumes ok: "fst (convert_file e taskId documentId vectorizerId now form d) = ConvertDocument ts res"
  shows "\<exists>row d3 vid d4.
           doc_id row = documentId \<and> doc_vectorizer_id row = None
         \<and> documentId \<notin> set (map doc_id (documents d))
         \<and> documents d3 = documents d @ [row]
         \<and> vectorizers d3 = vectorizers d
         \<and> get_or_create_vectorizer d3 (model_name_of e (form_model form))
              (or_else (form_ocr_engine form) ''easyocr'') vectorizerId now = Some (vid, d4)
         \<and> snd (convert_file e taskId documentId vectorizerId now form d)
              = update_document_vectorizer d4 vid documentId"
proof (cases "form_files form")
  case Nil
  then show ?thesis using ok by (simp add: convert_file_def)
next
  case (Cons f others)
  show ?thesis
  proof (cases "file_size f > MAX_FILE_SIZE_MB * (1024 * 1024)")
    case True
    then show ?thesis using ok by (simp add: convert_file_def Cons)
  next
    case False
    let ?row = "\<lparr>doc_id = documentId, doc_name = file_name f,
                  doc_format = or_else (form_format form) ''json'',
                  doc_pages = length (form_files form), doc_created_at = now,
                  doc_content = (if length (file_text f) \<le> CHUNK_SIZE_TOKENS
                                 then Some (file_text f) else None),
                  doc_vectorizer_id = None\<rparr>"
    show ?thesis
    proof (cases "insert_document d ?row")
      case None
      then show ?thesis using False ok by (simp add: convert_file_def Cons Let_def)
    next
      case (Some d1)
      then have fr: "documentId \<notin> set (map doc_id (documents d))"
        and docs1: "documents d1 = documents d @ [?row]"
        and v1: "vectorizers d1 = vectorizers d"
        by (auto simp: insert_document_def split: if_splits)
      let ?loop = "(if length (file_text f) > CHUNK_SIZE_TOKENS
                           then chunk_loop documentId (file_text f)
                                  (ceil_div (length (file_text f)) CHUNK_SIZE_TOKENS) now 0 d1
                           else (True, d1))"
      obtain okl d2 where loop: "?loop = (okl, d2)" by (cases ?loop)
      have "documents d2 = documents (snd ?loop)" "vectorizers d2 = vectorizers (snd ?loop)"
        by (simp_all only: loop snd_conv)
      then have docs2: "documents d2 = documents d @ [?row]" and v2: "vectorizers d2 = vectorizers d"
        using docs1 v1 by simp_all
      let ?task = "\<lparr>task_id = taskId, task_status = Completed,
                     task_document_id = documentId, task_progress = Some 0,
                     task_message = Some ''Files processed successfully'',
                     task_error = None, task_created_at = now, task_updated_at = now\<rparr>"
      note red = convert_file_steps [OF Cons False Some loop, of e taskId vectorizerId]
      show ?thesis
      proof (cases okl)
        case False
        then show ?thesis using ok by (simp add: red)
      next
        case True
        show ?thesis
        proof (cases "insert_task d2 ?task")
          case None
          then show ?thesis using True ok by (simp add: red)
        next
          case (Some d3)
          note t3 = insert_task_tables [OF Some]
          show ?thesis
          proof (cases "get_or_create_vectorizer d3 (model_name_of e (form_model form))
                          (or_else (form_ocr_engine form) ''easyocr'') vectorizerId now")
            case None
            then show ?thesis using True Some ok by (simp add: red)
          next
            case (Some p)
            obtain vid d4 where p: "p = (vid, d4)" by (cases p)
            have fin: "snd (convert_file e taskId documentId vectorizerId now form d)
                = update_document_vectorizer d4 vid documentId"
              using True \<open>insert_task d2 ?task = Some d3\<close> Some p by (simp add: red)
            have "doc_id ?row = documentId \<and> doc_vectorizer_id ?row = None
                \<and> documentId \<notin> set (map doc_id (documents d))
                \<and> documents d3 = documents d @ [?row]
                \<and> vectorizers d3 = vectorizers d
                \<and> get_or_create_vectorizer d3 (model_name_of e (form_model form))
                     (or_else (form_ocr_engine form) ''easyocr'') vectorizerId now = Some (vid, d4)
                \<and> snd (convert_file e taskId documentId vectorizerId now form d)
                     = update_document_vectorizer d4 vid documentId"
              using fr fin Some p by (simp add: t3 docs2 v2)
            then show ?thesis by blast
          qed
        qed
      qed
    qed
  qed
qed

lemma consistent_vectorizers_cong:
  assumes "consistent d" and "vectorizers d' = vectorizers d"
    and "map doc_id (documents d') = map doc_id (documents d)"
  shows "consistent d'"
  using assms by (simp add: consistent_def)

lemma consistent_new_document:
  assumes "consistent d" and "distinct (map vec_model_name (vectorizers d'))"
    and "documents d' = documents d @ [row]" and "doc_id row \<notin> set (map doc_id (documents d))"
  shows "consistent d'"
  using assms by (simp add: consistent_def)

lemma update_document_vectorizer_ids [simp]:
  "map doc_id (documents (update_document_vectorizer d v documentId)) = map doc_id (documents d)"
  by (simp add: update_document_vectorizer_def comp_def)

lemma get_or_create_vectorizer_distinct:
  assumes "get_or_create_vectorizer d X ocrEngine newId now = Some (vid, d')"
    and "distinct (map vec_model_name (vectorizers d))"
  shows "distinct (map vec_model_name (vectorizers d'))"
  using get_or_create_vectorizer_unique(3) [OF assms] .

lemma convert_source_consistent:
  assumes "consistent d"
  shows "consistent (snd (convert_source taskId documentId now data d))"
  using assms
  by (auto simp: convert_source_def insert_document_def insert_task_def consistent_def
           split: option.splits if_splits)

lemma progress_callback_consistent:
  assumes "consistent d"
  shows "consistent (snd (progress_callback now data d))"
proof -
  have "vectorizers (snd (progress_callback now data d)) = vectorizers d
      \<and> documents (snd (progress_callback now data d)) = documents d"
    by (auto simp: progress_callback_def Let_def case_prod_unfold split: option.splits)
  then show ?thesis using assms by (simp add: consistent_def)
qed

text \<open>The bootstrap is the lookup-or-insert for the default model, its result dropped.\<close>

lemma ensureDefaultVectorizer_get_or_create:
  "ensureDefaultVectorizer e vectorizerId now d =
     (case get_or_create_vectorizer d (or_else (DEFAULT_MODEL e) ''gpt-4o-mini'') ''easyocr''
             vectorizerId now of
        None \<Rightarrow> (False, d)
      | Some (vid, d') \<Rightarrow> (True, d'))"
  by (simp add: ensureDefaultVectorizer_def get_or_create_vectorizer_def Let_def
           split: option.splits)

lemma ensureDefaultVectorizer_consistent:
  assumes "consistent d"
  shows "consistent (snd (ensureDefaultVectorizer e vectorizerId now d))"
proof (cases "get_or_create_vectorizer d (or_else (DEFAULT_MODEL e) ''gpt-4o-mini'') ''easyocr''
             vectorizerId now")
  case None
  then show ?thesis using assms by (simp add: ensureDefaultVectorizer_get_or_create)
next
  case (Some p)
  obtain vid d' where p: "p = (vid, d')" by (cases p)
  note g = Some [unfolded p]
  have "distinct (map vec_model_name (vectorizers d'))"
    using get_or_create_vectorizer_distinct [OF g] assms by (simp add: consistent_def)
  moreover have "documents d' = documents d" by (rule get_or_create_vectorizer_tables(1) [OF g])
  ultimately show ?thesis
    using assms Some p by (simp add: ensureDefaultVectorizer_get_or_create consistent_def)
qed

lemma convert_source_async_consistent:
  assumes "consistent d"
  shows "consistent (snd (convert_source_async e taskId documentId vectorizerId now data d))"
proof (cases "req_sources data")
  case None
  then show ?thesis using assms by (simp add: convert_source_async_def)
next
  case (Some srcs)
  show ?thesis
  proof (cases "length srcs = 0")
    case True
    then show ?thesis using assms Some by (simp add: convert_source_async_def)
  next
    case False
    let ?m = "model_name_of e (case req_options data of None \<Rightarrow> None | Some opts \<Rightarrow> opt_model opts)"
    let ?o = "or_else (case req_options data of None \<Rightarrow> None | Some opts \<Rightarrow> opt_ocr_engine opts)
                ''easyocr''"
    show ?thesis
    proof (cases "get_or_create_vectorizer d ?m ?o vectorizerId now")
      case None
      then show ?thesis using assms Some False by (simp add: convert_source_async_def Let_def)
    next
      case (Some p)
      obtain vid d1 where p: "p = (vid, d1)" by (cases p)
      note g = Some [unfolded p]
      have dist1: "distinct (map vec_model_name (vectorizers d1))"
        using get_or_create_vectorizer_distinct [OF g] assms by (simp add: consistent_def)
      have docs1: "documents d1 = documents d" by (rule get_or_create_vectorizer_tables(1) [OF g])
      have c1: "consistent d1" using assms dist1 docs1 by (simp add: consistent_def)
      let ?doc = "\<lparr>doc_id = documentId, doc_name = ''async-document'', doc_format = ''json'',
                   doc_pages = length srcs, doc_created_at = now,
                   doc_content = None, doc_vectorizer_id = Some vid\<rparr>"
      show ?thesis
      proof (cases "insert_document d1 ?doc")
        case None
        then show ?thesis using c1 \<open>req_sources data = Some srcs\<close> False g
          by (simp add: convert_source_async_def Let_def)
      next
        case (Some d2)
        then have c2: "consistent d2"
          using c1 by (auto simp: insert_document_def consistent_def split: if_splits)
        let ?task = "\<lparr>task_id = taskId, task_status = Pending,
                       task_document_id = documentId, task_progress = Some 0,
                       task_message = Some ''Document conversion queued'',
                       task_error = None, task_created_at = now, task_updated_at = now\<rparr>"
        show ?thesis
        proof (cases "insert_task d2 ?task")
          case None
          then show ?thesis using c2 \<open>req_sources data = Some srcs\<close> False g Some
            by (simp add: convert_source_async_def Let_def)
        next
          case (Some d3)
          note t3 = insert_task_tables [OF Some]
          have "consistent (insert_sources documentId now srcs d3)"
            using c2 by (simp add: consistent_def t3)
          then show ?thesis
            using \<open>req_sources data = Some srcs\<close> False g \<open>insert_document d1 ?doc = Some d2\<close> Some
            by (simp add: convert_source_async_def Let_def)
        qed
      qed
    qed
  qed
qed

lemma convert_file_consistent:
  assumes cons: "consistent d"
  shows "consistent (snd (convert_file e taskId documentId vectorizerId now form d))"
proof (cases "form_files form")
  case Nil
  then show ?thesis using cons by (simp add: convert_file_def)
next
  case (Cons f others)
  show ?thesis
  proof (cases "file_size f > MAX_FILE_SIZE_MB * (1024 * 1024)")
    case True
    then show ?thesis using cons by (simp add: convert_file_def Cons)
  next
    case False
    let ?row = "\<lparr>doc_id = documentId, doc_name = file_name f,
                  doc_format = or_else (form_format form) ''json'',
                  doc_pages = length (form_files form), doc_created_at = now,
                  doc_content = (if length (file_text f) \<le> CHUNK_SIZE_TOKENS
                                 then Some (file_text f) else None),
                  doc_vectorizer_id = None\<rparr>"
    show ?thesis
    proof (cases "insert_document d ?row")
      case None
      then show ?thesis using False cons by (simp add: convert_file_def Cons Let_def)
    next
      case (Some d1)
      then have c1: "consistent d1"
        using cons by (auto simp: insert_document_def consistent_def split: if_splits)
      let ?loop = "(if length (file_text f) > CHUNK_SIZE_TOKENS
                           then chunk_loop documentId (file_text f)
                                  (ceil_div (length (file_text f)) CHUNK_SIZE_TOKENS) now 0 d1
                           else (True, d1))"
      obtain okl d2 where loop: "?loop = (okl, d2)" by (cases ?loop)
      have "documents d2 = documents (snd ?loop)" "vectorizers d2 = vectorizers (snd ?loop)"
        by (simp_all only: loop snd_conv)
      then have "documents d2 = documents d1" and "vectorizers d2 = vectorizers d1"
        by simp_all
      then have c2: "consistent d2" using c1 by (simp add: consistent_def)
      let ?task = "\<lparr>task_id = taskId, task_status = Completed,
                     task_document_id = documentId, task_progress = Some 0,
                     task_message = Some ''Files processed successfully'',
                     task_error = None, task_created_at = now, task_updated_at = now\<rparr>"
      note red = convert_file_steps [OF Cons False Some loop, of e taskId vectorizerId]
      show ?thesis
      proof (cases okl)
        case False
        then show ?thesis using c2 by (simp add: red)
      next
        case True
        show ?thesis
        proof (cases "insert_task d2 ?task")
          case None
          then show ?thesis using True c2 by (simp add: red)
        next
          case (Some d3)
          note t3 = insert_task_tables [OF Some]
          have c3: "consistent d3" using c2 by (simp add: consistent_def t3)
          show ?thesis
          proof (cases "get_or_create_vectorizer d3 (model_name_of e (form_model form))
                          (or_else (form_ocr_engine form) ''easyocr'') vectorizerId now")
            case None
            then show ?thesis using True Some c3 by (simp add: red)
          next
            case (Some p)
            obtain vid d4 where p: "p = (vid, d4)" by (cases p)
            note g = Some [unfolded p]
            have "distinct (map vec_model_name (vectorizers d4))"
              using get_or_create_vectorizer_distinct [OF g] c3 by (simp add: consistent_def)
            moreover have "documents d4 = documents d3"
              by (rule get_or_create_vectorizer_tables(1) [OF g])
            ultimately have "consistent (update_document_vectorizer d4 vid documentId)"
              using c3 by (simp add: consistent_def)
            then show ?thesis using True \<open>insert_task d2 ?task = Some d3\<close> Some p
              by (simp add: red)
          qed
        qed
      qed
    qed
  qed
qed

lemma handle_consistent:
  assumes "consistent d"
  shows "consistent (handle e r d)"
  using assms
  by (cases r)
     (simp_all add: convert_source_consistent convert_file_consistent
        convert_source_async_consistent progress_callback_consistent
        ensureDefaultVectorizer_consistent)

lemma run_consistent:
  assumes "consistent d"
  shows "consistent (run e history d)"
  using assms by (induction history arbitrary: d) (simp_all add: handle_consistent)

lemma empty_db_consistent: "consistent empty_db"
  by (simp add: consistent_def empty_db_def)

text \<open>When the async flow answers with success: the steps it has taken.\<close>

lemma convert_source_async_completes:
  assumes ok: "fst (convert_source_async e taskId documentId vectorizerId now data d) = TaskStatus ts"
  shows "\<exists>row vid d1.
           doc_id row = documentId \<and> doc_vectorizer_id row = Some vid
         \<and> documentId \<notin> set (map doc_id (documents d))
         \<and> get_or_create_vectorizer d
              (model_name_of e (case req_options data of None \<Rightarrow> None | Some opts \<Rightarrow> opt_model opts))
              (or_else (case req_options data of None \<Rightarrow> None | Some opts \<Rightarrow> opt_ocr_engine opts)
                 ''easyocr'') vectorizerId now = Some (vid, d1)
         \<and> documents (snd (convert_source_async e taskId documentId vectorizerId now data d))
              = documents d @ [row]
         \<and> vectorizers (snd (convert_source_async e taskId documentId vectorizerId now data d))
              = vectorizers d1"
proof (cases "req_sources data")
  case None
  then show ?thesis using ok by (simp add: convert_source_async_def)
next
  case (Some srcs)
  show ?thesis
  proof (cases "length srcs = 0")
    case True
    then show ?thesis using ok Some by (simp add: convert_source_async_def)
  next
    case False
    let ?m = "model_name_of e (case req_options data of None \<Rightarrow> None | Some opts \<Rightarrow> opt_model opts)"
    let ?o = "or_else (case req_options data of None \<Rightarrow> None | Some opts \<Rightarrow> opt_ocr_engine opts)
                ''easyocr''"
    show ?thesis
    proof (cases "get_or_create_vectorizer d ?m ?o vectorizerId now")
      case None
      then show ?thesis using ok Some False by (simp add: convert_source_async_def Let_def)
    next
      case (Some p)
      obtain vid d1 where p: "p = (vid, d1)" by (cases p)
      note g = Some [unfolded p]
      have docs1: "documents d1 = documents d" by (rule get_or_create_vectorizer_tables(1) [OF g])
      let ?doc = "\<lparr>doc_id = documentId, doc_name = ''async-document'', doc_format = ''json'',
                   doc_pages = length srcs, doc_created_at = now,
                   doc_content = None, doc_vectorizer_id = Some vid\<rparr>"
      show ?thesis
      proof (cases "insert_document d1 ?doc")
        case None
        then show ?thesis using ok \<open>req_sources data = Some srcs\<close> False g
          by (simp add: convert_source_async_def Let_def)
      next
        case (Some d2)
        then have fr: "documentId \<notin> set (map doc_id (documents d))"
          and docs2: "documents d2 = documents d @ [?doc]" and v2: "vectorizers d2 = vectorizers d1"
          using docs1 by (auto simp: insert_document_def split: if_splits)
        let ?task = "\<lparr>task_id = taskId, task_status = Pending,
                       task_document_id = documentId, task_progress = Some 0,
                       task_message = Some ''Document conversion queued'',
                       task_error = None, task_created_at = now, task_updated_at = now\<rparr>"
        show ?thesis
        proof (cases "insert_task d2 ?task")
          case None
          then show ?thesis using ok \<open>req_sources data = Some srcs\<close> False g Some
            by (simp add: convert_source_async_def Let_def)
        next
          case (Some d3)
          note t3 = insert_task_tables [OF Some]
          have fin: "snd (convert_source_async e taskId documentId vectorizerId now data d)
              = insert_sources documentId now srcs d3"
            using \<open>req_sources data = Some srcs\<close> False g \<open>insert_document d1 ?doc = Some d2\<close> Some
            by (simp add: convert_source_async_def Let_def)
          have "doc_id ?doc = documentId \<and> doc_vectorizer_id ?doc = Some vid
              \<and> documentId \<notin> set (map doc_id (documents d))
              \<and> get_or_create_vectorizer d ?m ?o vectorizerId now = Some (vid, d1)
              \<and> documents (snd (convert_source_async e taskId documentId vectorizerId now data d))
                   = documents d @ [?doc]
              \<and> vectorizers (snd (convert_source_async e taskId documentId vectorizerId now data d))
                   = vectorizers d1"
            using fr g by (simp add: fin t3 docs2 v2)
          then show ?thesis by blast
        qed
      qed
    qed
  qed
qed

text \<open>A new document linked to the result of a lookup-or-insert.\<close>

lemma link_effect:
  assumes cons: "consistent d"
    and fr: "documentId \<notin> set (map doc_id (documents d))"
    and docs: "documents d' = documents d @ [row]"
    and rid: "doc_id row = documentId" and rv: "doc_vectorizer_id row = Some vid"
    and vX: "vectorizers dX = vectorizers d"
    and goc: "get_or_create_vectorizer dX X ocrEngine newId now = Some (vid, d4)"
    and v': "vectorizers d' = vectorizers d4"
  shows "\<exists>v. vectorizers_named d' X = [v]
           \<and> map doc_vectorizer_id (filter (\<lambda>x. doc_id x = documentId) (documents d'))
               = [Some (vec_id v)]"
    and "vectorizers_named d X \<noteq> [] \<Longrightarrow> vectorizers d' = vectorizers d"
    and "\<forall>k. k \<in> set (map doc_id (documents d)) \<longrightarrow>
           filter (\<lambda>x. doc_id x = k) (documents d') = filter (\<lambda>x. doc_id x = k) (documents d)"
    and "documentId \<in> set (map doc_id (documents d'))"
proof -
  have distX: "distinct (map vec_model_name (vectorizers dX))"
    using cons by (simp add: consistent_def vX)
  note u = get_or_create_vectorizer_unique [OF goc distX]
  have named': "vectorizers_named d' X = vectorizers_named d4 X"
    and namedX: "vectorizers_named dX X = vectorizers_named d X"
    by (simp_all add: vectorizers_named_def v' vX)
  obtain v where v: "vectorizers_named d4 X = [v]" and vid: "vec_id v = vid"
    using u(1) by blast
  have nd: "\<forall>x \<in> set (documents d). \<not> doc_id x = documentId" using fr by auto
  have "filter (\<lambda>x. doc_id x = documentId) (documents d') = [row]"
    unfolding docs using nd rid by (intro filter_fresh_snoc) simp_all
  then have "vectorizers_named d' X = [v]
           \<and> map doc_vectorizer_id (filter (\<lambda>x. doc_id x = documentId) (documents d'))
               = [Some (vec_id v)]"
    using v vid rv by (simp add: named')
  then show "\<exists>v. vectorizers_named d' X = [v]
           \<and> map doc_vectorizer_id (filter (\<lambda>x. doc_id x = documentId) (documents d'))
               = [Some (vec_id v)]"
    by (rule exI)
  show "vectorizers d' = vectorizers d" if "vectorizers_named d X \<noteq> []"
    using u(2) that by (simp add: namedX v' vX)
  show "\<forall>k. k \<in> set (map doc_id (documents d)) \<longrightarrow>
           filter (\<lambda>x. doc_id x = k) (documents d') = filter (\<lambda>x. doc_id x = k) (documents d)"
    unfolding docs using fr rid by auto
  show "documentId \<in> set (map doc_id (documents d'))"
    unfolding docs using rid by simp
qed

lemma request_effect:
  assumes cons: "consistent d" and m: "vectorizer_model e r = Some X" and c: "completes e r d"
  shows "\<exists>v. vectorizers_named (handle e r d) X = [v]
           \<and> (\<forall>k. linked_document r = Some k \<longrightarrow>
                 map doc_vectorizer_id (filter (\<lambda>x. doc_id x = k) (documents (handle e r d)))
                   = [Some (vec_id v)])"
    and "vectorizers_named d X \<noteq> [] \<Longrightarrow> vectorizers (handle e r d) = vectorizers d"
    and "\<forall>k. k \<in> set (map doc_id (documents d)) \<longrightarrow>
           filter (\<lambda>x. doc_id x = k) (documents (handle e r d))
             = filter (\<lambda>x. doc_id x = k) (documents d)"
    and "\<forall>k. linked_document r = Some k \<longrightarrow> k \<in> set (map doc_id (documents (handle e r d)))"
proof -
  have "(\<exists>v. vectorizers_named (handle e r d) X = [v]
           \<and> (\<forall>k. linked_document r = Some k \<longrightarrow>
                 map doc_vectorizer_id (filter (\<lambda>x. doc_id x = k) (documents (handle e r d)))
                   = [Some (vec_id v)]))
      \<and> (vectorizers_named d X \<noteq> [] \<longrightarrow> vectorizers (handle e r d) = vectorizers d)
      \<and> (\<forall>k. k \<in> set (map doc_id (documents d)) \<longrightarrow>
           filter (\<lambda>x. doc_id x = k) (documents (handle e r d))
             = filter (\<lambda>x. doc_id x = k) (documents d))
      \<and> (\<forall>k. linked_document r = Some k \<longrightarrow> k \<in> set (map doc_id (documents (handle e r d))))"
  proof (cases r)
    case (ConvertSource taskId documentId now data)
    then show ?thesis using m by simp
  next
    case (ProgressCallback now data)
    then show ?thesis using m by simp
  next
    case (ConvertFile taskId documentId vectorizerId now form)
    have X: "X = model_name_of e (form_model form)" using m by (simp add: ConvertFile)
    obtain ts res where ok:
      "fst (convert_file e taskId documentId vectorizerId now form d) = ConvertDocument ts res"
      using c by (cases "fst (convert_file e taskId documentId vectorizerId now form d)")
        (simp_all add: ConvertFile)
    from convert_file_completes [OF ok]
    obtain row d3 vid d4 where s:
      "doc_id row = documentId" "doc_vectorizer_id row = None"
      "documentId \<notin> set (map doc_id (documents d))"
      "documents d3 = documents d @ [row]"
      "vectorizers d3 = vectorizers d"
      "get_or_create_vectorizer d3 X
         (or_else (form_ocr_engine form) ''easyocr'') vectorizerId now = Some (vid, d4)"
      "snd (convert_file e taskId documentId vectorizerId now form d)
         = update_document_vectorizer d4 vid documentId"
      unfolding X by blast
    have nd: "\<forall>x \<in> set (documents d). doc_id x \<noteq> documentId" using s(3) by auto
    have "documents d4 = documents d @ [row]"
      using get_or_create_vectorizer_tables(1) [OF s(6)] s(4) by simp
    from update_document_vectorizer_documents [OF nd s(1) this, of vid]
    have docs: "documents (handle e r d) = documents d @ [row\<lparr>doc_vectorizer_id := Some vid\<rparr>]"
      by (simp add: ConvertFile s(7))
    have v': "vectorizers (handle e r d) = vectorizers d4" by (simp add: ConvertFile s(7))
    have rid: "doc_id (row\<lparr>doc_vectorizer_id := Some vid\<rparr>) = documentId"
      and rv: "doc_vectorizer_id (row\<lparr>doc_vectorizer_id := Some vid\<rparr>) = Some vid"
      using s(1) by simp_all
    note l = link_effect [OF cons s(3) docs rid rv s(5) s(6) v']
    show ?thesis using l by (simp add: ConvertFile)
  next
    case (ConvertSourceAsync taskId documentId vectorizerId now data)
    have X: "X = model_name_of e
        (case req_options data of None \<Rightarrow> None | Some opts \<Rightarrow> opt_model opts)"
      using m by (simp add: ConvertSourceAsync)
    obtain ts where ok:
      "fst (convert_source_async e taskId documentId vectorizerId now data d) = TaskStatus ts"
      using c by (cases "fst (convert_source_async e taskId documentId vectorizerId now data d)")
        (simp_all add: ConvertSourceAsync)
    from convert_source_async_completes [OF ok]
    obtain row vid d1 where s:
      "doc_id row = documentId" "doc_vectorizer_id row = Some vid"
      "documentId \<notin> set (map doc_id (documents d))"
      "get_or_create_vectorizer d X
         (or_else (case req_options data of None \<Rightarrow> None | Some opts \<Rightarrow> opt_ocr_engine opts)
            ''easyocr'') vectorizerId now = Some (vid, d1)"
      "documents (snd (convert_source_async e taskId documentId vectorizerId now data d))
         = documents d @ [row]"
      "vectorizers (snd (convert_source_async e taskId documentId vectorizerId now data d))
         = vectorizers d1"
      unfolding X by blast
    have docs: "documents (handle e r d) = documents d @ [row]"
      and v': "vectorizers (handle e r d) = vectorizers d1"
      by (simp_all add: ConvertSourceAsync s(5) s(6))
    note l = link_effect [OF cons s(3) docs s(1) s(2) refl s(4) v']
    show ?thesis using l by (simp add: ConvertSourceAsync)
  next
    case (EnsureDefaultVectorizer vectorizerId now)
    have X: "X = or_else (DEFAULT_MODEL e) ''gpt-4o-mini''"
      using m by (simp add: EnsureDefaultVectorizer)
    obtain vid d' where g: "get_or_create_vectorizer d X ''easyocr'' vectorizerId now = Some (vid, d')"
      and h: "snd (ensureDefaultVectorizer e vectorizerId now d) = d'"
      using c unfolding X
      by (cases "get_or_create_vectorizer d (or_else (DEFAULT_MODEL e) ''gpt-4o-mini'') ''easyocr''
             vectorizerId now")
        (auto simp: EnsureDefaultVectorizer ensureDefaultVectorizer_get_or_create)
    have dist: "distinct (map vec_model_name (vectorizers d))"
      using cons by (simp add: consistent_def)
    note u = get_or_create_vectorizer_unique [OF g dist]
    have docs: "documents d' = documents d" by (rule get_or_create_vectorizer_tables(1) [OF g])
    obtain v where "vectorizers_named d' X = [v]" using u(1) by blast
    then show ?thesis using u(2) docs by (simp add: h EnsureDefaultVectorizer)
  qed
  then show "\<exists>v. vectorizers_named (handle e r d) X = [v]
           \<and> (\<forall>k. linked_document r = Some k \<longrightarrow>
                 map doc_vectorizer_id (filter (\<lambda>x. doc_id x = k) (documents (handle e r d)))
                   = [Some (vec_id v)])"
    and "vectorizers_named d X \<noteq> [] \<Longrightarrow> vectorizers (handle e r d) = vectorizers d"
    and "\<forall>k. k \<in> set (map doc_id (documents d)) \<longrightarrow>
           filter (\<lambda>x. doc_id x = k) (documents (handle e r d))
             = filter (\<lambda>x. doc_id x = k) (documents d)"
    and "\<forall>k. linked_document r = Some k \<longrightarrow> k \<in> set (map doc_id (documents (handle e r d)))"
    by simp_all
qed

lemma well_posed_completes:
  assumes "well_posed e r d"
  shows "completes e r d"
proof (cases r)
  case (ConvertSource taskId documentId now data)
  then show ?thesis using assms by simp
next
  case (ProgressCallback now data)
  then show ?thesis using assms by simp
next
  case (ConvertFile taskId documentId vectorizerId now form)
  from assms obtain f others where files: "form_files form = f # others"
    and size: "file_size f \<le> MAX_FILE_SIZE_MB * (1024 * 1024)"
    by (cases "form_files form") (simp_all add: ConvertFile)
  have fr: "fresh_document_id d documentId" "fresh_task_id d taskId"
    "fresh_vectorizer_id d vectorizerId"
    using assms by (simp_all add: ConvertFile)
  show ?thesis
    by (simp add: ConvertFile convert_file_tasks(2) [OF files size fr])
next
  case (ConvertSourceAsync taskId documentId vectorizerId now data)
  from assms obtain srcs where src: "req_sources data = Some srcs" and ne: "srcs \<noteq> []"
    by (cases "req_sources data") (simp_all add: ConvertSourceAsync)
  have fr: "fresh_document_id d documentId" "fresh_task_id d taskId"
    "fresh_vectorizer_id d vectorizerId"
    using assms by (simp_all add: ConvertSourceAsync)
  show ?thesis
    by (simp add: ConvertSourceAsync convert_source_async_fresh(1) [OF src ne fr])
next
  case (EnsureDefaultVectorizer vectorizerId now)
  have "fresh_vectorizer_id d vectorizerId" using assms by (simp add: EnsureDefaultVectorizer)
  from get_or_create_vectorizer_fresh [OF this]
  obtain vid d' where "get_or_create_vectorizer d (or_else (DEFAULT_MODEL e) ''gpt-4o-mini'')
      ''easyocr'' vectorizerId now = Some (vid, d')"
    by blast
  then show ?thesis
    by (simp add: EnsureDefaultVectorizer ensureDefaultVectorizer_get_or_create)
qed

text \<open>
  Claim C5. In a database reached from the empty one by requests handled one after
  another, two further requests that make their lookup-or-insert with the same model
  name \<open>X\<close> (through the file flow, the async flow or the bootstrap, in any combination),
  each with input its handler accepts and with new identifiers, both run to their end
  and leave exactly one \<open>vectorizers\<close> row named \<open>X\<close>, the same row after the first and
  after the second; every document such a request creates is linked to the identifier
  of that row.
\<close>

theorem vectorizer_get_or_create_idempotent:
  assumes m1: "vectorizer_model e r1 = Some X" and m2: "vectorizer_model e r2 = Some X"
    and d0: "d0 = run e history empty_db"
    and a1: "well_posed e r1 d0" and a2: "well_posed e r2 (handle e r1 d0)"
    and d2: "d2 = handle e r2 (handle e r1 d0)"
  shows "completes e r1 d0 \<and> completes e r2 (handle e r1 d0)
       \<and> (\<exists>v. vectorizers_named (handle e r1 d0) X = [v]
           \<and> vectorizers_named d2 X = [v]
           \<and> (\<forall>k. linked_document r1 = Some k \<or> linked_document r2 = Some k \<longrightarrow>
                 map doc_vectorizer_id (filter (\<lambda>x. doc_id x = k) (documents d2))
                   = [Some (vec_id v)]))"
proof -
  define d1 where "d1 = handle e r1 d0"
  have c1: "completes e r1 d0" by (rule well_posed_completes [OF a1])
  have c2: "completes e r2 (handle e r1 d0)" by (rule well_posed_completes [OF a2])
  have cons0: "consistent d0" unfolding d0 by (rule run_consistent [OF empty_db_consistent])
  have cons1: "consistent d1" unfolding d1_def by (rule handle_consistent [OF cons0])
  note e1 = request_effect [OF cons0 m1 c1, folded d1_def]
  note e2 = request_effect [OF cons1 m2 c2 [folded d1_def], folded d2 [folded d1_def]]
  obtain v where v1: "vectorizers_named d1 X = [v]"
    and l1: "\<forall>k. linked_document r1 = Some k \<longrightarrow>
                 map doc_vectorizer_id (filter (\<lambda>x. doc_id x = k) (documents d1))
                   = [Some (vec_id v)]"
    using e1(1) by blast
  have "vectorizers_named d1 X \<noteq> []" using v1 by simp
  then have "vectorizers d2 = vectorizers d1" by (rule e2(2))
  then have v2: "vectorizers_named d2 X = [v]" using v1 by (simp add: vectorizers_named_def)
  obtain v' where v2': "vectorizers_named d2 X = [v']"
    and l2: "\<forall>k. linked_document r2 = Some k \<longrightarrow>
                 map doc_vectorizer_id (filter (\<lambda>x. doc_id x = k) (documents d2))
                   = [Some (vec_id v')]"
    using e2(1) by blast
  have same: "v' = v" using v2 v2' by simp
  have "map doc_vectorizer_id (filter (\<lambda>x. doc_id x = k) (documents d2)) = [Some (vec_id v)]"
    if k: "linked_document r1 = Some k \<or> linked_document r2 = Some k" for k
    using k
  proof
    assume "linked_document r2 = Some k"
    then show ?thesis using l2 same by simp
  next
    assume k1: "linked_document r1 = Some k"
    then have "k \<in> set (map doc_id (documents d1))" using e1(4) by blast
    then have "filter (\<lambda>x. doc_id x = k) (documents d2) = filter (\<lambda>x. doc_id x = k) (documents d1)"
      using e2(3) by blast
    then show ?thesis using l1 k1 by simp
  qed
  then have "\<exists>v. vectorizers_named (handle e r1 d0) X = [v]
           \<and> vectorizers_named d2 X = [v]
           \<and> (\<forall>k. linked_document r1 = Some k \<or> linked_document r2 = Some k \<longrightarrow>
                 map doc_vectorizer_id (filter (\<lambda>x. doc_id x = k) (documents d2))
                   = [Some (vec_id v)])"
    using v1 v2 unfolding d1_def by blast
  then show ?thesis using c1 c2 by (intro conjI)
qed

theorem vectorizer_get_or_create_idempotent_witness:
  "vectorizers_named
          (handle \<lparr>DEFAULT_MODEL = None\<rparr>
             (ConvertSourceAsync ''t2'' ''d2'' ''v2'' 5
                \<lparr>req_sources = Some [SourceUrl ''https://a/b.pdf''], req_options = None\<rparr>)
             (handle \<lparr>DEFAULT_MODEL = None\<rparr>
                (ConvertFile ''t1'' ''d1'' ''v1'' 4
                   \<lparr>form_files = [\<lparr>file_name = ''a.txt'', file_size = 3,
                                    file_text = js_literal ''abc''\<rparr>],
                    form_format = None, form_ocr_engine = None, form_model = None\<rparr>)
                (run \<lparr>DEFAULT_MODEL = None\<rparr> [] empty_db)))
          ''gpt-4o-mini''
      = vectorizers_named
          (handle \<lparr>DEFAULT_MODEL = None\<rparr>
                (ConvertFile ''t1'' ''d1'' ''v1'' 4
                   \<lparr>form_files = [\<lparr>file_name = ''a.txt'', file_size = 3,
                                    file_text = js_literal ''abc''\<rparr>],
                    form_format = None, form_ocr_engine = None, form_model = None\<rparr>)
                (run \<lparr>DEFAULT_MODEL = None\<rparr> [] empty_db))
          ''gpt-4o-mini''
   \<and> length (vectorizers_named
          (handle \<lparr>DEFAULT_MODEL = None\<rparr>
             (ConvertSourceAsync ''t2'' ''d2'' ''v2'' 5
                \<lparr>req_sources = Some [SourceUrl ''https://a/b.pdf''], req_options = None\<rparr>)
             (handle \<lparr>DEFAULT_MODEL = None\<rparr>
                (ConvertFile ''t1'' ''d1'' ''v1'' 4
                   \<lparr>form_files = [\<lparr>file_name = ''a.txt'', file_size = 3,
                                    file_text = js_literal ''abc''\<rparr>],
                    form_format = None, form_ocr_engine = None, form_model = None\<rparr>)
                (run \<lparr>DEFAULT_MODEL = None\<rparr> [] empty_db)))
          ''gpt-4o-mini'') = 1
   \<and> map doc_vectorizer_id (filter (\<lambda>x. doc_id x = ''d1'')
           (documents
              (handle \<lparr>DEFAULT_MODEL = None\<rparr>
             (ConvertSourceAsync ''t2'' ''d2'' ''v2'' 5
                \<lparr>req_sources = Some [SourceUrl ''https://a/b.pdf''], req_options = None\<rparr>)
             (handle \<lparr>DEFAULT_MODEL = None\<rparr>
                (ConvertFile ''t1'' ''d1'' ''v1'' 4
                   \<lparr>form_files = [\<lparr>file_name = ''a.txt'', file_size = 3,
                                    file_text = js_literal ''abc''\<rparr>],
                    form_format = None, form_ocr_engine = None, form_model = None\<rparr>)
                (run \<lparr>DEFAULT_MODEL = None\<rparr> [] empty_db)))))
      = map doc_vectorizer_id (filter (\<lambda>x. doc_id x = ''d2'')
           (documents
              (handle \<lparr>DEFAULT_MODEL = None\<rparr>
             (ConvertSourceAsync ''t2'' ''d2'' ''v2'' 5
                \<lparr>req_sources = Some [SourceUrl ''https://a/b.pdf''], req_options = None\<rparr>)
             (handle \<lparr>DEFAULT_MODEL = None\<rparr>
                (ConvertFile ''t1'' ''d1'' ''v1'' 4
                   \<lparr>form_files = [\<lparr>file_name = ''a.txt'', file_size = 3,
                                    file_text = js_literal ''abc''\<rparr>],
                    form_format = None, form_ocr_engine = None, form_model = None\<rparr>)
                (run \<lparr>DEFAULT_MODEL = None\<rparr> [] empty_db)))))"
  (is "vectorizers_named (handle ?e ?r2 (handle ?e ?r1 (run ?e ?h empty_db))) ?X = _ \<and> _")
proof -
  have m1: "vectorizer_model ?e ?r1 = Some ?X" and m2: "vectorizer_model ?e ?r2 = Some ?X"
    by (simp_all add: model_name_of_def or_else_def)
  have a1: "well_posed ?e ?r1 (run ?e ?h empty_db)"
    by (simp add: fresh_document_id_def fresh_task_id_def fresh_vectorizer_id_def empty_db_def
        MAX_FILE_SIZE_MB_def)
  have f: "convert_file ?e ''t1'' ''d1'' ''v1'' 4
       \<lparr>form_files = [\<lparr>file_name = ''a.txt'', file_size = 3, file_text = js_literal ''abc''\<rparr>],
        form_format = None, form_ocr_engine = None, form_model = None\<rparr> empty_db =
      (ConvertDocument
         \<lparr>rsp_task_id = ''t1'', rsp_status = Completed,
          rsp_message = Some ''Files processed successfully'',
          rsp_progress = None, rsp_error = None\<rparr>
         \<lparr>res_document_id = ''d1'', res_pages = 1, res_format = ''json'', res_content = None\<rparr>,
       \<lparr>documents =
          [\<lparr>doc_id = ''d1'', doc_name = ''a.txt'', doc_format = ''json'', doc_pages = 1,
            doc_created_at = 4, doc_content = Some (js_literal ''abc''),
            doc_vectorizer_id = Some ''v1''\<rparr>],
        tasks =
          [\<lparr>task_id = ''t1'', task_status = Completed, task_document_id = ''d1'',
            task_progress = Some 0, task_message = Some ''Files processed successfully'',
            task_error = None, task_created_at = 4, task_updated_at = 4\<rparr>],
        sources = [], file_chunks = [],
        vectorizers =
         [\<lparr>vec_id = ''v1'', vec_model_name = ''gpt-4o-mini'', vec_engine_type = ''openai'',
           vec_chunk_size = CHUNK_SIZE_TOKENS, vec_ocr_engine = Some ''easyocr'',
           vec_created_at = 4, vec_updated_at = 4,
           vec_parameters = Some default_parameters\<rparr>]\<rparr>)" (is "_ = (_, ?d1)")
    by (simp add: convert_file_def eval_defs update_document_vectorizer_def MAX_FILE_SIZE_MB_def
        CHUNK_SIZE_TOKENS_def)
  have h1: "handle ?e ?r1 (run ?e ?h empty_db) = ?d1"
    by (simp add: f)
  have a2: "well_posed ?e ?r2 (handle ?e ?r1 (run ?e ?h empty_db))"
    unfolding h1
    by (simp add: fresh_document_id_def fresh_task_id_def fresh_vectorizer_id_def)
  from vectorizer_get_or_create_idempotent [OF m1 m2 refl a1 a2 refl]
  obtain v where v1: "vectorizers_named (handle ?e ?r1 (run ?e ?h empty_db)) ?X = [v]"
    and v: "vectorizers_named (handle ?e ?r2 (handle ?e ?r1 (run ?e ?h empty_db))) ?X = [v]"
    and l: "\<forall>k. linked_document ?r1 = Some k \<or> linked_document ?r2 = Some k \<longrightarrow>
                 map doc_vectorizer_id (filter (\<lambda>x. doc_id x = k)
                   (documents (handle ?e ?r2 (handle ?e ?r1 (run ?e ?h empty_db)))))
                   = [Some (vec_id v)]"
    by blast
  have l1: "map doc_vectorizer_id (filter (\<lambda>x. doc_id x = ''d1'')
                   (documents (handle ?e ?r2 (handle ?e ?r1 (run ?e ?h empty_db)))))
                   = [Some (vec_id v)]"
    using l [rule_format, of "''d1''"] by simp
  have l2: "map doc_vectorizer_id (filter (\<lambda>x. doc_id x = ''d2'')
                   (documents (handle ?e ?r2 (handle ?e ?r1 (run ?e ?h empty_db)))))
                   = [Some (vec_id v)]"
    using l [rule_format, of "''d2''"] by simp
  show ?thesis unfolding v v1 l1 l2 by simp
qed

section \<open>Vectorizer lookup-or-insert, statements interleaved\<close>

lemma select_vectorizer_id_None:
  "select_vectorizer_id d X = None \<longleftrightarrow> vectorizers_named d X = []"
  by (auto simp: select_vectorizer_id_def vectorizers_named_def find_None_iff filter_empty_conv)

lemma returned_simps [simp]:
  "returned (c\<lparr>c_state := Returned v\<rparr>)" "\<not> returned (c\<lparr>c_state := AtInsert\<rparr>)"
  "c_state c = AtSelect \<Longrightarrow> \<not> returned c" "c_state c = AtInsert \<Longrightarrow> \<not> returned c"
  "c_state c = Threw \<Longrightarrow> \<not> returned c" "c_state c = Returned v \<Longrightarrow> returned c"
  by (simp_all add: returned_def)

lemma pending_zero: "c_state c \<noteq> Threw \<Longrightarrow> pending c = 0 \<Longrightarrow> returned c"
  by (cases "c_state c") (simp_all add: pending_def)

lemma caller_step_effect:
  assumes step: "caller_step X c d = (c', d')"
    and ok: "c_state c \<noteq> Threw"
    and fresh: "0 < pending c \<longrightarrow> fresh_vectorizer_id d (c_new_id c)"
  shows "c_new_id c' = c_new_id c"
    and "c_state c' \<noteq> Threw"
    and "pending c' \<le> pending c - 1"
    and "0 < pending c' \<longrightarrow> d' = d"
    and "vectorizers d' = vectorizers d
         \<or> (\<exists>row. vectorizers d' = vectorizers d @ [row] \<and> vec_id row = c_new_id c)"
    and "length (vectorizers_named d' X) + in_flight c'
           \<le> length (vectorizers_named d X) + in_flight c"
    and "length (vectorizers_named d X) \<le> length (vectorizers_named d' X)"
    and "returned c' \<longrightarrow> returned c \<or> 1 \<le> length (vectorizers_named d' X)"
proof -
  consider (sel) "c_state c = AtSelect" | (ins) "c_state c = AtInsert"
    | (ret) v where "c_state c = Returned v"
    using ok by (cases "c_state c") simp_all
  then have "c_new_id c' = c_new_id c \<and> c_state c' \<noteq> Threw \<and> pending c' \<le> pending c - 1
    \<and> (0 < pending c' \<longrightarrow> d' = d)
    \<and> (vectorizers d' = vectorizers d
         \<or> (\<exists>row. vectorizers d' = vectorizers d @ [row] \<and> vec_id row = c_new_id c))
    \<and> length (vectorizers_named d' X) + in_flight c'
           \<le> length (vectorizers_named d X) + in_flight c
    \<and> length (vectorizers_named d X) \<le> length (vectorizers_named d' X)
    \<and> (returned c' \<longrightarrow> returned c \<or> 1 \<le> length (vectorizers_named d' X))"
  proof cases
    case sel
    show ?thesis
    proof (cases "select_vectorizer_id d X")
      case None
      then have "c' = c\<lparr>c_state := AtInsert\<rparr>" "d' = d"
        using step sel by (simp_all add: caller_step_def)
      then show ?thesis using sel by (simp add: pending_def in_flight_def)
    next
      case (Some existing)
      then have "c' = c\<lparr>c_state := Returned existing\<rparr>" "d' = d"
        using step sel by (simp_all add: caller_step_def)
      moreover have "vectorizers_named d X \<noteq> []"
        using Some select_vectorizer_id_None [of d X] by simp
      then have "1 \<le> length (vectorizers_named d X)"
        by (cases "vectorizers_named d X") simp_all
      ultimately show ?thesis using sel by (simp add: pending_def in_flight_def)
    qed
  next
    case ins
    then have "fresh_vectorizer_id d (c_new_id c)" using fresh by (simp add: pending_def)
    then have "c' = c\<lparr>c_state := Returned (c_new_id c)\<rparr>"
      "d' = d\<lparr>vectorizers := vectorizers d @
         [\<lparr>vec_id = c_new_id c, vec_model_name = X, vec_engine_type = ''openai'',
           vec_chunk_size = CHUNK_SIZE_TOKENS, vec_ocr_engine = Some (c_ocr_engine c),
           vec_created_at = c_now c, vec_updated_at = c_now c,
           vec_parameters = Some default_parameters\<rparr>]\<rparr>"
      using step ins
      by (simp_all add: caller_step_def insert_vectorizer_def fresh_vectorizer_id_def)
    then show ?thesis using ins
      by (simp add: pending_def in_flight_def vectorizers_named_def)
  next
    case ret
    then have "c' = c" "d' = d" using step by (simp_all add: caller_step_def)
    then show ?thesis using ret by (simp add: pending_def in_flight_def)
  qed
  then show "c_new_id c' = c_new_id c"
    and "c_state c' \<noteq> Threw"
    and "pending c' \<le> pending c - 1"
    and "0 < pending c' \<longrightarrow> d' = d"
    and "vectorizers d' = vectorizers d
         \<or> (\<exists>row. vectorizers d' = vectorizers d @ [row] \<and> vec_id row = c_new_id c)"
    and "length (vectorizers_named d' X) + in_flight c'
           \<le> length (vectorizers_named d X) + in_flight c"
    and "length (vectorizers_named d X) \<le> length (vectorizers_named d' X)"
    and "returned c' \<longrightarrow> returned c \<or> 1 \<le> length (vectorizers_named d' X)"
    by simp_all
qed

lemma ready_step:
  assumes r: "ready d cs" and i: "i < length cs"
    and step: "caller_step X (cs ! i) d = (c', d')"
  shows "ready d' (cs[i := c'])"
proof -
  have mem: "cs ! i \<in> set cs" using i by simp
  have ok: "c_state (cs ! i) \<noteq> Threw"
    and fresh: "0 < pending (cs ! i) \<longrightarrow> fresh_vectorizer_id d (c_new_id (cs ! i))"
    using r mem by (simp_all add: ready_def)
  note e = caller_step_effect [OF step ok fresh]
  have dist: "distinct (map c_new_id cs)" using r by (simp add: ready_def)
  have "map c_new_id (cs[i := c']) = (map c_new_id cs)[i := map c_new_id cs ! i]"
    using i e(1) by (simp add: map_update)
  then have ids: "map c_new_id (cs[i := c']) = map c_new_id cs" by simp
  have "c_state c \<noteq> Threw \<and> (0 < pending c \<longrightarrow> fresh_vectorizer_id d' (c_new_id c))"
    if c: "c \<in> set (cs[i := c'])" for c
  proof -
    from c obtain j where j: "j < length cs" and cj: "c = cs[i := c'] ! j"
      by (auto simp: in_set_conv_nth)
    show ?thesis
    proof (cases "j = i")
      case True
      then have "c = c'" using cj i by simp
      then show ?thesis using e(1) e(2) e(4) e(3) fresh by auto
    next
      case False
      then have c_old: "c = cs ! j" using cj by simp
      then have cmem: "c \<in> set cs" using j by simp
      have "c_new_id (cs ! j) \<noteq> c_new_id (cs ! i)"
      proof
        assume "c_new_id (cs ! j) = c_new_id (cs ! i)"
        then have "map c_new_id cs ! j = map c_new_id cs ! i" using i j by simp
        moreover have "(map c_new_id cs ! j = map c_new_id cs ! i) = (j = i)"
          by (rule nth_eq_iff_index_eq [OF dist]) (simp_all add: i j)
        ultimately show False using False by blast
      qed
      then have ne: "c_new_id c \<noteq> c_new_id (cs ! i)" using c_old by simp
      have "c_state c \<noteq> Threw" using r cmem by (simp add: ready_def)
      moreover have "fresh_vectorizer_id d' (c_new_id c)" if "0 < pending c"
      proof -
        have "fresh_vectorizer_id d (c_new_id c)" using r cmem that by (simp add: ready_def)
        then show ?thesis using e(5) ne by (auto simp: fresh_vectorizer_id_def)
      qed
      ultimately show ?thesis by simp
    qed
  qed
  then show ?thesis using dist ids by (simp add: ready_def)
qed


lemma sum_list_map_update:
  fixes f :: "'a \<Rightarrow> nat"
  shows "i < length xs \<Longrightarrow>
    sum_list (map f (xs[i := y])) + f (xs ! i) = sum_list (map f xs) + f y"
  by (induction xs arbitrary: i) (auto split: nat.splits)

lemma sum_list_ones:
  fixes f :: "'a \<Rightarrow> nat"
  shows "(\<And>x. x \<in> set xs \<Longrightarrow> f x = 1) \<Longrightarrow> sum_list (map f xs) = length xs"
  by (induction xs) simp_all

lemma run_schedule_effect:
  assumes "ready d cs"
  shows "ready (snd (run_schedule X sched (cs, d))) (fst (run_schedule X sched (cs, d)))
       \<and> length (fst (run_schedule X sched (cs, d))) = length cs
       \<and> (\<forall>k < length cs. pending (fst (run_schedule X sched (cs, d)) ! k)
                             \<le> pending (cs ! k) - count_list sched k)
       \<and> length (vectorizers_named (snd (run_schedule X sched (cs, d))) X)
           + sum_list (map in_flight (fst (run_schedule X sched (cs, d))))
         \<le> length (vectorizers_named d X) + sum_list (map in_flight cs)
       \<and> length (vectorizers_named d X)
           \<le> length (vectorizers_named (snd (run_schedule X sched (cs, d))) X)
       \<and> ((\<exists>c \<in> set (fst (run_schedule X sched (cs, d))). returned c)
            \<longrightarrow> (\<exists>c \<in> set cs. returned c)
                \<or> 1 \<le> length (vectorizers_named (snd (run_schedule X sched (cs, d))) X))"
  using assms
proof (induction sched arbitrary: cs d)
  case Nil
  then show ?case by simp
next
  case (Cons i sched)
  show ?case
  proof (cases "i < length cs")
    case False
    then have same: "run_schedule X (i # sched) (cs, d) = run_schedule X sched (cs, d)"
      by simp
    have cnt: "count_list (i # sched) k = count_list sched k" if "k < length cs" for k
      using that False by auto
    show ?thesis unfolding same using Cons.IH [OF Cons.prems] cnt by simp
  next
    case True
    obtain c' d' where step: "caller_step X (cs ! i) d = (c', d')"
      by (cases "caller_step X (cs ! i) d")
    define cs1 where "cs1 = cs[i := c']"
    let ?R = "run_schedule X sched (cs1, d')"
    have same: "run_schedule X (i # sched) (cs, d) = ?R"
      using True step by (simp add: cs1_def)
    have r1: "ready d' cs1" unfolding cs1_def by (rule ready_step [OF Cons.prems True step])
    note ih = Cons.IH [OF r1]
    have mem: "cs ! i \<in> set cs" using True by simp
    have ok: "c_state (cs ! i) \<noteq> Threw"
      and fresh: "0 < pending (cs ! i) \<longrightarrow> fresh_vectorizer_id d (c_new_id (cs ! i))"
      using Cons.prems mem by (simp_all add: ready_def)
    note e = caller_step_effect [OF step ok fresh]
    have len1: "length cs1 = length cs" by (simp add: cs1_def)
    have A: "ready (snd ?R) (fst ?R)" using ih by simp
    have B: "length (fst ?R) = length cs" using ih len1 by simp
    have C: "pending (fst ?R ! k) \<le> pending (cs ! k) - count_list (i # sched) k"
      if k: "k < length cs" for k
    proof -
      have p: "pending (fst ?R ! k) \<le> pending (cs1 ! k) - count_list sched k"
        using ih k len1 by simp
      show ?thesis
      proof (cases "k = i")
        case True
        then have "cs1 ! k = c'" using k by (simp add: cs1_def)
        then have "pending (cs1 ! k) \<le> pending (cs ! k) - 1" using e(3) True by simp
        moreover have "count_list (i # sched) k = count_list sched k + 1" using True by simp
        ultimately show ?thesis using p by linarith
      next
        case False
        then have "cs1 ! k = cs ! k" by (simp add: cs1_def)
        moreover have "count_list (i # sched) k = count_list sched k" using False by simp
        ultimately show ?thesis using p by simp
      qed
    qed
    have s1: "sum_list (map in_flight cs1) + in_flight (cs ! i)
                = sum_list (map in_flight cs) + in_flight c'"
      unfolding cs1_def by (rule sum_list_map_update [OF True])
    have "length (vectorizers_named (snd ?R) X) + sum_list (map in_flight (fst ?R))
            \<le> length (vectorizers_named d' X) + sum_list (map in_flight cs1)"
      using ih by simp
    then have D: "length (vectorizers_named (snd ?R) X) + sum_list (map in_flight (fst ?R))
            \<le> length (vectorizers_named d X) + sum_list (map in_flight cs)"
      using s1 e(6) by linarith
    have m1: "length (vectorizers_named d' X) \<le> length (vectorizers_named (snd ?R) X)"
      using ih by simp
    then have E: "length (vectorizers_named d X) \<le> length (vectorizers_named (snd ?R) X)"
      using e(7) by linarith
    have F: "(\<exists>c \<in> set cs. returned c) \<or> 1 \<le> length (vectorizers_named (snd ?R) X)"
      if ex: "\<exists>c \<in> set (fst ?R). returned c"
    proof -
      from ih ex have "(\<exists>c \<in> set cs1. returned c)
          \<or> 1 \<le> length (vectorizers_named (snd ?R) X)" by blast
      then show ?thesis
      proof
        assume "1 \<le> length (vectorizers_named (snd ?R) X)"
        then show ?thesis by simp
      next
        assume "\<exists>c \<in> set cs1. returned c"
        then obtain c where c: "c \<in> set cs1" and rc: "returned c" by blast
        have "c = c' \<or> c \<in> set cs"
          using c set_update_subset_insert [of cs i c'] by (auto simp: cs1_def)
        then show ?thesis
        proof
          assume "c \<in> set cs"
          then show ?thesis using rc by blast
        next
          assume "c = c'"
          then have "returned (cs ! i) \<or> 1 \<le> length (vectorizers_named d' X)"
            using e(8) rc by simp
          then show ?thesis using mem m1 by (elim disjE) (blast, simp)
        qed
      qed
    qed
    show ?thesis unfolding same using A B C D E F by blast
  qed
qed


lemma run_schedule_append:
  "run_schedule X (s1 @ s2) cfg = run_schedule X s2 (run_schedule X s1 cfg)"
proof (induction s1 arbitrary: cfg)
  case Nil
  then show ?case by simp
next
  case (Cons i s1)
  obtain cs d where cfg: "cfg = (cs, d)" by (cases cfg)
  show ?case unfolding cfg using Cons.IH by (simp split: prod.splits)
qed

lemma caller_step_twice:
  assumes s1: "caller_step X c d = (c1, d1)" and s2: "caller_step X c1 d1 = (c2, d2)"
    and ok: "c_state c \<noteq> Threw" and q: "c_state c \<noteq> AtInsert"
    and fresh: "0 < pending c \<longrightarrow> fresh_vectorizer_id d (c_new_id c)"
    and le: "length (vectorizers_named d X) \<le> 1"
  shows "c_state c2 \<noteq> AtInsert \<and> length (vectorizers_named d2 X) \<le> 1"
proof -
  consider (sel) "c_state c = AtSelect" | (ret) v where "c_state c = Returned v"
    using ok q by (cases "c_state c") simp_all
  then show ?thesis
  proof cases
    case ret
    then have "c1 = c" "d1 = d" using s1 by (simp_all add: caller_step_def)
    then have "c2 = c" "d2 = d" using s2 ret by (simp_all add: caller_step_def)
    then show ?thesis using ret le by simp
  next
    case sel
    show ?thesis
    proof (cases "select_vectorizer_id d X")
      case (Some existing)
      then have 1: "c1 = c\<lparr>c_state := Returned existing\<rparr>" "d1 = d"
        using s1 sel by (simp_all add: caller_step_def)
      then have "c2 = c1" "d2 = d" using s2 by (simp_all add: caller_step_def)
      then show ?thesis using 1 le by simp
    next
      case None
      then have 1: "c1 = c\<lparr>c_state := AtInsert\<rparr>" "d1 = d"
        using s1 sel by (simp_all add: caller_step_def)
      have f: "fresh_vectorizer_id d (c_new_id c)" using fresh sel by (simp add: pending_def)
      have 2: "c2 = c1\<lparr>c_state := Returned (c_new_id c)\<rparr>"
        "d2 = d\<lparr>vectorizers := vectorizers d @
         [\<lparr>vec_id = c_new_id c, vec_model_name = X, vec_engine_type = ''openai'',
           vec_chunk_size = CHUNK_SIZE_TOKENS, vec_ocr_engine = Some (c_ocr_engine c),
           vec_created_at = c_now c, vec_updated_at = c_now c,
           vec_parameters = Some default_parameters\<rparr>]\<rparr>"
        using s2 1 f
        by (simp_all add: caller_step_def insert_vectorizer_def fresh_vectorizer_id_def)
      have "vectorizers_named d X = []" using None select_vectorizer_id_None by simp
      then show ?thesis using 2 by (simp add: vectorizers_named_def)
    qed
  qed
qed

lemma run_schedule_pair:
  assumes r: "ready d cs" and q: "\<forall>c \<in> set cs. c_state c \<noteq> AtInsert"
    and le: "length (vectorizers_named d X) \<le> 1"
  shows "ready (snd (run_schedule X [i, i] (cs, d))) (fst (run_schedule X [i, i] (cs, d)))
       \<and> (\<forall>c \<in> set (fst (run_schedule X [i, i] (cs, d))). c_state c \<noteq> AtInsert)
       \<and> length (vectorizers_named (snd (run_schedule X [i, i] (cs, d))) X) \<le> 1"
proof (cases "i < length cs")
  case False
  then show ?thesis using r q le by simp
next
  case True
  obtain c1 d1 where s1: "caller_step X (cs ! i) d = (c1, d1)"
    by (cases "caller_step X (cs ! i) d")
  obtain c2 d2 where s2: "caller_step X c1 d1 = (c2, d2)"
    by (cases "caller_step X c1 d1")
  have R: "run_schedule X [i, i] (cs, d) = (cs[i := c2], d2)"
    using True s1 s2 by simp
  have mem: "cs ! i \<in> set cs" using True by simp
  have ok: "c_state (cs ! i) \<noteq> Threw"
    and fresh: "0 < pending (cs ! i) \<longrightarrow> fresh_vectorizer_id d (c_new_id (cs ! i))"
    using r mem by (simp_all add: ready_def)
  have qi: "c_state (cs ! i) \<noteq> AtInsert" using q mem by simp
  note t = caller_step_twice [OF s1 s2 ok qi fresh le]
  have "ready (snd (run_schedule X [i, i] (cs, d))) (fst (run_schedule X [i, i] (cs, d)))"
    using run_schedule_effect [OF r, of X "[i, i]"] by simp
  moreover have "c_state c \<noteq> AtInsert" if "c \<in> set (cs[i := c2])" for c
  proof -
    have "c = c2 \<or> c \<in> set cs"
      using that set_update_subset_insert [of cs i c2] by auto
    then show ?thesis using t q by auto
  qed
  ultimately show ?thesis unfolding R using t by simp
qed

lemma run_schedule_serial:
  assumes "ready d cs" and "\<forall>c \<in> set cs. c_state c \<noteq> AtInsert"
    and "length (vectorizers_named d X) \<le> 1"
  shows "length (vectorizers_named (snd (run_schedule X (serial order) (cs, d))) X) \<le> 1"
  using assms
proof (induction order arbitrary: cs d)
  case Nil
  then show ?case by (simp add: serial_def)
next
  case (Cons i order)
  have split: "serial (i # order) = [i, i] @ serial order" by (simp add: serial_def)
  obtain cs1 d1 where R: "run_schedule X [i, i] (cs, d) = (cs1, d1)"
    by (cases "run_schedule X [i, i] (cs, d)")
  from run_schedule_pair [OF Cons.prems, of i]
  have "ready d1 cs1" "\<forall>c \<in> set cs1. c_state c \<noteq> AtInsert"
    "length (vectorizers_named d1 X) \<le> 1"
    unfolding R by simp_all
  from Cons.IH [OF this] show ?case
    unfolding split run_schedule_append R .
qed

lemma count_list_serial: "count_list (serial order) k = 2 * count_list order k"
  by (induction order) (simp_all add: serial_def)

text \<open>
  Claim C6, as the code has it. The \<open>vectorizers\<close> table has no uniqueness constraint on
  \<open>model_name\<close> and the block has no fallback to a lookup: it is a SELECT followed, when no
  row was found, by an INSERT of a row with a new identifier. For a model name with no row
  yet and \<open>N \<ge> 1\<close> callers with new identifiers, whose statements interleave in any order
  in which each caller runs both of its statements, every caller returns an identifier and
  between 1 and \<open>N\<close> rows with that name are left; exactly one row is left when the callers
  run one after another.
\<close>

theorem concurrent_get_or_create:
  assumes unseen: "vectorizers_named d X = []"
    and start: "\<forall>c \<in> set cs. c_state c = AtSelect \<and> fresh_vectorizer_id d (c_new_id c)"
    and ids: "distinct (map c_new_id cs)"
    and ne: "cs \<noteq> []"
    and all: "\<forall>i < length cs. 2 \<le> count_list sched i"
  shows "(\<forall>c \<in> set (fst (run_schedule X sched (cs, d))). returned c)
       \<and> 1 \<le> length (vectorizers_named (snd (run_schedule X sched (cs, d))) X)
       \<and> length (vectorizers_named (snd (run_schedule X sched (cs, d))) X) \<le> length cs
       \<and> ((\<exists>order. sched = serial order) \<longrightarrow>
            length (vectorizers_named (snd (run_schedule X sched (cs, d))) X) = 1)"
proof -
  let ?R = "run_schedule X sched (cs, d)"
  have r: "ready d cs" using start ids by (simp add: ready_def)
  note e = run_schedule_effect [OF r, of X sched]
  have len: "length (fst ?R) = length cs" using e by simp
  have ret: "returned c" if c: "c \<in> set (fst ?R)" for c
  proof -
    from c obtain k where k: "k < length cs" and ck: "c = fst ?R ! k"
      using len by (auto simp: in_set_conv_nth)
    have "cs ! k \<in> set cs" using k by simp
    then have "pending (cs ! k) = 2" using start by (simp add: pending_def)
    moreover have "pending c \<le> pending (cs ! k) - count_list sched k" using e k ck by simp
    moreover have "2 \<le> count_list sched k" using all k by simp
    ultimately have "pending c = 0" by linarith
    moreover have "c_state c \<noteq> Threw" using e c by (simp add: ready_def)
    ultimately show ?thesis by (rule pending_zero [rotated])
  qed
  have "fst ?R \<noteq> []" using len ne by auto
  then obtain c where c: "c \<in> set (fst ?R)" by (cases "fst ?R") auto
  have "\<not> (\<exists>c \<in> set cs. returned c)" using start by auto
  moreover have "\<exists>c \<in> set (fst ?R). returned c" using c ret by blast
  ultimately have lower: "1 \<le> length (vectorizers_named (snd ?R) X)" using e by blast
  have "in_flight c = 1" if "c \<in> set cs" for c
    using that start by (simp add: in_flight_def pending_def)
  then have "sum_list (map in_flight cs) = length cs" by (simp add: sum_list_ones)
  moreover have "length (vectorizers_named (snd ?R) X) + sum_list (map in_flight (fst ?R))
         \<le> length (vectorizers_named d X) + sum_list (map in_flight cs)"
    using e by simp
  ultimately have upper: "length (vectorizers_named (snd ?R) X) \<le> length cs"
    using unseen by simp
  have one: "length (vectorizers_named (snd ?R) X) = 1" if "sched = serial order" for order
  proof -
    have "\<forall>c \<in> set cs. c_state c \<noteq> AtInsert" using start by simp
    moreover have "length (vectorizers_named d X) \<le> 1" using unseen by simp
    ultimately have "length (vectorizers_named (snd (run_schedule X (serial order) (cs, d))) X) \<le> 1"
      by (rule run_schedule_serial [OF r])
    then show ?thesis using lower that by simp
  qed
  show ?thesis using ret lower upper one by blast
qed


theorem concurrent_get_or_create_witness:
  "length (vectorizers_named
     (snd (run_schedule ''gpt-4o-mini'' (serial [0, 1])
        ([new_caller ''v1'' ''easyocr'' 4, new_caller ''v2'' ''easyocr'' 5], empty_db)))
     ''gpt-4o-mini'') = 1"
  (is "length (vectorizers_named (snd (run_schedule ?X (serial ?order) (?cs, empty_db))) ?X) = 1")
proof -
  have unseen: "vectorizers_named empty_db ?X = []"
    by (simp add: vectorizers_named_def empty_db_def)
  have start: "\<forall>c \<in> set ?cs. c_state c = AtSelect \<and> fresh_vectorizer_id empty_db (c_new_id c)"
    by (simp add: new_caller_def fresh_vectorizer_id_def empty_db_def)
  have ids: "distinct (map c_new_id ?cs)" by (simp add: new_caller_def)
  have ne: "?cs \<noteq> []" by simp
  have all: "\<forall>i < length ?cs. 2 \<le> count_list (serial ?order) i"
    by (simp add: serial_def less_2_cases_iff)
  from concurrent_get_or_create [OF unseen start ids ne all]
  show ?thesis by blast
qed

text \<open>
  The claim as stated fails: two callers whose SELECTs both run before either INSERT leave
  two rows, and each returns its own identifier.
\<close>

theorem concurrent_get_or_create_counterexample:
  "length (vectorizers_named
     (snd (run_schedule ''gpt-4o-mini'' [0, 1, 0, 1]
        ([new_caller ''v1'' ''easyocr'' 4, new_caller ''v2'' ''easyocr'' 5], empty_db)))
     ''gpt-4o-mini'') = 2
   \<and> map c_state
     (fst (run_schedule ''gpt-4o-mini'' [0, 1, 0, 1]
        ([new_caller ''v1'' ''easyocr'' 4, new_caller ''v2'' ''easyocr'' 5], empty_db)))
     = [Returned ''v1'', Returned ''v2'']"
  by (simp add: caller_step_def new_caller_def select_vectorizer_id_def insert_vectorizer_def
      vectorizers_named_def empty_db_def)

end
